theory Spec2Isabelle
  imports Main
begin

section \<open>JavaScript strings\<close>

text \<open>
  Strings are lists of characters, each standing for a code unit below 256. In that
  range the white space of \<^verbatim>\<open>String.prototype.trim\<close> and of the regular expression
  class \<^verbatim>\<open>\s\<close> is TAB, LF, VT, FF, CR, SPACE and the no-break space U+00A0;
  \<^verbatim>\<open>\d\<close> is a decimal digit and \<^verbatim>\<open>\w\<close> is an ASCII letter, a digit or the underscore.
\<close>

definition is_space :: "char \<Rightarrow> bool" where
  "is_space c =
     (c \<in> set [CHR 0x09, CHR 0x0A, CHR 0x0B, CHR 0x0C, CHR 0x0D, CHR '' '', CHR 0xA0])"

definition is_digit :: "char \<Rightarrow> bool" where
  "is_digit c = (c \<in> set ''0123456789'')"

definition is_upper :: "char \<Rightarrow> bool" where
  "is_upper c = (c \<in> set ''ABCDEFGHIJKLMNOPQRSTUVWXYZ'')"

definition is_lower :: "char \<Rightarrow> bool" where
  "is_lower c = (c \<in> set ''abcdefghijklmnopqrstuvwxyz'')"

definition is_letter :: "char \<Rightarrow> bool" where
  "is_letter c = (is_upper c \<or> is_lower c)"

definition is_word :: "char \<Rightarrow> bool" where
  "is_word c = (is_letter c \<or> is_digit c \<or> c = CHR ''_'')"

text \<open>\<^verbatim>\<open>s.trim()\<close>\<close>

definition trim :: "string \<Rightarrow> string" where
  "trim s = rev (dropWhile is_space (rev (dropWhile is_space s)))"

text \<open>\<^verbatim>\<open>s.replace(/\s+/g, rep)\<close>: every maximal run of white space becomes \<open>rep\<close>.\<close>

function replace_ws :: "string \<Rightarrow> string \<Rightarrow> string" where
  "replace_ws rep [] = []"
| "replace_ws rep (c # cs) =
     (if is_space c then rep @ replace_ws rep (dropWhile is_space cs)
      else c # replace_ws rep cs)"
  by pat_completeness auto
termination
  by (relation "measure (\<lambda>(rep, s). length s)")
     (auto simp: le_imp_less_Suc length_dropWhile_le)

text \<open>
  \<^verbatim>\<open>s.toLowerCase()\<close>: the capital letters below 256 are A to Z and U+00C0 to U+00DE
  without the multiplication sign U+00D7; the small letter is 32 code units above.
\<close>

definition lower_char :: "char \<Rightarrow> char" where
  "lower_char c =
     (let n = of_char c :: nat
      in if (65 \<le> n \<and> n \<le> 90) \<or> (192 \<le> n \<and> n \<le> 222 \<and> n \<noteq> 215)
         then char_of (n + 32) else c)"

definition toLowerCase :: "string \<Rightarrow> string" where
  "toLowerCase s = map lower_char s"

text \<open>\<^verbatim>\<open>s.startsWith(p)\<close> and \<^verbatim>\<open>s.includes(p)\<close>\<close>

definition startsWith :: "string \<Rightarrow> string \<Rightarrow> bool" where
  "startsWith s p = (take (length p) s = p)"

fun str_includes :: "string \<Rightarrow> string \<Rightarrow> bool" where
  "str_includes [] p = (p = [])"
| "str_includes (c # cs) p = (startsWith (c # cs) p \<or> str_includes cs p)"

text \<open>The decimal numeral of a number, as a template literal prints it.\<close>

function string_of_nat :: "nat \<Rightarrow> string" where
  "string_of_nat n =
     (if n < 10 then [char_of (48 + n)]
      else string_of_nat (n div 10) @ [char_of (48 + n mod 10)])"
  by pat_completeness auto
termination
  by (relation "measure id") auto

declare string_of_nat.simps [simp del]

section \<open>Grid extraction: \<^verbatim>\<open>AWBScraper.parseHTML\<close> (scraper.js)\<close>

text \<open>
  The document enters the model as what the selections of the parsing library return:
  \<^verbatim>\<open>$('table')\<close> is a list of table elements, each with its \<^verbatim>\<open>id\<close> attribute
  (\<open>None\<close> when \<^verbatim>\<open>attr('id')\<close> is undefined) and the list \<^verbatim>\<open>find('tr')\<close> of its rows,
  each row being the list \<^verbatim>\<open>find('td, th')\<close> of its cell elements with their tag name
  and text content.
\<close>

record html_cell =
  cell_name :: string
  cell_text :: string

record html_table =
  attr_id :: "string option"
  trs :: "html_cell list list"

record cell =
  "text" :: string
  isHeader :: bool

record row =
  row_number :: nat
  cells :: "cell list"

text \<open>
  A table object, as \<open>parseHTML\<close> builds it (rows are \<open>row\<close> objects) and as the server
  sends it (rows are arrays of strings).
\<close>

record 'r table =
  table_number :: nat
  table_id :: string
  total_rows :: nat
  rows :: "'r list"

type_synonym grid_table = "row table"

record extraction =
  awb_number :: string
  service :: "string option"
  extraction_time :: string
  all_tables :: "grid_table list"

text \<open>The callback of \<^verbatim>\<open>$(row).find('td, th').each\<close>: push the cell when its trimmed text is truthy.\<close>

fun collect_cells :: "html_cell list \<Rightarrow> cell list \<Rightarrow> cell list" where
  "collect_cells [] acc = acc"
| "collect_cells (c # cs) acc =
     (let txt = trim (cell_text c)
      in if txt \<noteq> []
         then collect_cells cs (acc @ [\<lparr>text = txt, isHeader = (cell_name c = ''th'')\<rparr>])
         else collect_cells cs acc)"

text \<open>The callback of \<^verbatim>\<open>$table.find('tr').each\<close>, with the index \<open>rowIdx\<close> of the element.\<close>

fun collect_rows :: "html_cell list list \<Rightarrow> nat \<Rightarrow> row list \<Rightarrow> row list" where
  "collect_rows [] rowIdx acc = acc"
| "collect_rows (r # rs) rowIdx acc =
     (let cs = collect_cells r []
      in if length cs > 0
         then collect_rows rs (rowIdx + 1) (acc @ [\<lparr>row_number = rowIdx, cells = cs\<rparr>])
         else collect_rows rs (rowIdx + 1) acc)"

text \<open>
  The callback of \<^verbatim>\<open>$('table').each\<close>; the state is the counter \<open>tableIndex\<close> and the
  array \<open>data.all_tables\<close>.
\<close>

fun collect_tables :: "html_table list \<Rightarrow> nat \<Rightarrow> grid_table list \<Rightarrow> grid_table list" where
  "collect_tables [] tableIndex acc = acc"
| "collect_tables (t # ts) tableIndex acc =
     (let tableId = (case attr_id t of
                       Some i \<Rightarrow> if i \<noteq> [] then i else ''table_'' @ string_of_nat tableIndex
                     | None \<Rightarrow> ''table_'' @ string_of_nat tableIndex);
          rs = collect_rows (trs t) 0 []
      in if length rs > 0
         then collect_tables ts (tableIndex + 1)
                (acc @ [\<lparr>table_number = tableIndex, table_id = tableId,
                         total_rows = length rs, rows = rs\<rparr>])
         else collect_tables ts tableIndex acc)"

text \<open>
  \<open>serviceOptions\<close> of the constructor; \<open>awbNumber\<close> is the field set there, the trimmed
  argument. \<open>now\<close> is the reading \<^verbatim>\<open>new Date().toISOString()\<close> of the clock.
\<close>

definition serviceOptions :: "string \<Rightarrow> string option" where
  "serviceOptions opt =
     (if opt = ''1'' then Some ''DCSC - Delhi Cargo Service Centre''
      else if opt = ''2'' then Some ''GMR ARGO - Cargo Tracking''
      else None)"

definition parseHTML :: "string \<Rightarrow> string \<Rightarrow> string \<Rightarrow> html_table list \<Rightarrow> extraction" where
  "parseHTML awbNumber serviceOption now doc =
     \<lparr>awb_number = trim awbNumber,
      service = serviceOptions serviceOption,
      extraction_time = now,
      all_tables = collect_tables doc 0 []\<rparr>"

text \<open>What the extraction promises of a cell, a row and a table.\<close>

definition cell_ok :: "cell \<Rightarrow> bool" where
  "cell_ok c = (trim (text c) \<noteq> [])"

definition row_ok :: "row \<Rightarrow> bool" where
  "row_ok r = (cells r \<noteq> [] \<and> list_all cell_ok (cells r))"

definition table_ok :: "grid_table \<Rightarrow> bool" where
  "table_ok t = (rows t \<noteq> [] \<and> list_all row_ok (rows t))"

section \<open>Response assembly: the \<^verbatim>\<open>/api/scrape\<close> handler (server)\<close>

text \<open>
  The handler maps the requested service to an option code, runs the scraper and, from
  the extraction, builds \<open>responseData\<close>. Its validation of the request and its
  not-found answer are not part of the model; \<open>now\<close> is the reading
  \<^verbatim>\<open>new Date().toLocaleString(...)\<close> of the clock.
\<close>

definition serviceOption :: "string \<Rightarrow> string" where
  "serviceOption svc = (if svc = ''gmr'' then ''2'' else ''1'')"

type_synonym response_table = "string list table"

record 't envelope =
  env_awb_number :: string
  service_name :: "string option"
  service_code :: string
  env_extraction_time :: string
  total_tables :: nat
  tables :: "'t list"

definition usefulTables :: "string \<Rightarrow> extraction \<Rightarrow> grid_table list" where
  "usefulTables opt data =
     (if opt = ''2''
      then filter (\<lambda>t. startsWith (table_id t) ''Grid'' \<or> startsWith (table_id t) ''grd'')
             (all_tables data)
      else if length (all_tables data) > 0 then [all_tables data ! 0] else [])"

text \<open>\<^verbatim>\<open>usefulTables.map((table, idx) => ...)\<close>\<close>

fun number_tables :: "grid_table list \<Rightarrow> nat \<Rightarrow> response_table list" where
  "number_tables [] idx = []"
| "number_tables (t # ts) idx =
     \<lparr>table_number = idx + 1, table_id = table_id t, total_rows = length (rows t),
      rows = map (\<lambda>r. map text (cells r)) (rows t)\<rparr> # number_tables ts (idx + 1)"

definition responseData :: "string \<Rightarrow> extraction \<Rightarrow> string \<Rightarrow> response_table envelope" where
  "responseData opt data now =
     \<lparr>env_awb_number = awb_number data,
      service_name = service data,
      service_code = opt,
      env_extraction_time = now,
      total_tables = length (usefulTables opt data),
      tables = number_tables (usefulTables opt data) 0\<rparr>"

section \<open>Normalization: \<^verbatim>\<open>parseTableData\<close> (App)\<close>

text \<open>
  A record object \<^verbatim>\<open>obj\<close> is a finite map from keys to strings. An assignment
  \<^verbatim>\<open>obj[k] = v\<close> of a string to a plain object sets the property \<open>k\<close>, except for the
  key \<^verbatim>\<open>__proto__\<close>, whose inherited setter ignores a value that is not an object.
\<close>

type_synonym obj = "string \<rightharpoonup> string"

definition obj_set :: "string \<Rightarrow> string \<Rightarrow> obj \<Rightarrow> obj" where
  "obj_set k v ob = (if k = ''__proto__'' then ob else ob(k \<mapsto> v))"

datatype js_error = TypeError

record "section" =
  section_title :: string
  sec_table_id :: string
  data :: "obj list"

text \<open>
  The tables of a normalized envelope; \<open>out_section_title\<close> is \<open>None\<close> where the object
  has no such property (source GMR).
\<close>

record out_table =
  out_table_id :: string
  out_table_number :: nat
  out_section_title :: "string option"
  out_data :: "obj list"
  out_total_rows :: nat

subsection \<open>\<^verbatim>\<open>parseDCSCTables\<close>\<close>

record dcsc_state =
  allSections :: "section list"
  currentSection :: "section option"
  currentHeaders :: "string list"

text \<open>A regular expression without repetition, anchored at the start: one class per character.\<close>

definition test_prefix :: "(char \<Rightarrow> bool) list \<Rightarrow> string \<Rightarrow> bool" where
  "test_prefix classes s =
     (length classes \<le> length s \<and> list_all2 (\<lambda>p c. p c) classes (take (length classes) s))"

text \<open>\<^verbatim>\<open>/^\d{2}-\w{3}-\d{2}/.test(cell)\<close>\<close>

definition date_regex :: "string \<Rightarrow> bool" where
  "date_regex c =
     test_prefix [is_digit, is_digit, (=) CHR ''-'', is_word, is_word, is_word, (=) CHR ''-'',
                  is_digit, is_digit] c"

definition looksLikeHeader :: "string list \<Rightarrow> bool" where
  "looksLikeHeader r =
     (length r > 1 \<and> length r < 20 \<and>
      list_all (\<lambda>c. length c > 0 \<and> length c < 50) r \<and>
      \<not> list_ex date_regex r)"

text \<open>\<^verbatim>\<open>h.trim().replace(/\s+/g, ' ')\<close>\<close>

definition clean_header :: "string \<Rightarrow> string" where
  "clean_header h = replace_ws '' '' (trim h)"

text \<open>
  \<^verbatim>\<open>currentHeaders.forEach((header, j) => { obj[header || `Column ${j + 1}`] = row[j] || '' })\<close>;
  an index beyond the row reads \<^verbatim>\<open>undefined\<close>, replaced by the empty string.
\<close>

fun dcsc_obj :: "string list \<Rightarrow> nat \<Rightarrow> string list \<Rightarrow> obj \<Rightarrow> obj" where
  "dcsc_obj [] j r ob = ob"
| "dcsc_obj (header # hs) j r ob =
     dcsc_obj hs (j + 1) r
       (obj_set (if header \<noteq> [] then header else ''Column '' @ string_of_nat (j + 1))
                (if j < length r then r ! j else [])
                ob)"

text \<open>
  One iteration of the loop over the rows of a table. \<open>is_section_start\<close> is the
  condition of its first \<^verbatim>\<open>if\<close>, \<open>new_section\<close> the object assigned to
  \<open>currentSection\<close> there.
\<close>

definition is_section_start :: "string list \<Rightarrow> bool" where
  "is_section_start r = (length r = 1 \<and> str_includes (r ! 0) ''DETAILS'')"

definition new_section :: "string list \<Rightarrow> section" where
  "new_section r =
     \<lparr>section_title = trim (r ! 0),
      sec_table_id = replace_ws ''_'' (toLowerCase (r ! 0)),
      data = []\<rparr>"

definition dcsc_row :: "dcsc_state \<Rightarrow> string list \<Rightarrow> dcsc_state" where
  "dcsc_row st r =
     (if is_section_start r then
        \<lparr>allSections =
           (case currentSection st of
              Some s \<Rightarrow> if length (data s) > 0 then allSections st @ [s] else allSections st
            | None \<Rightarrow> allSections st),
         currentSection = Some (new_section r),
         currentHeaders = []\<rparr>
      else case currentSection st of
        None \<Rightarrow> st
      | Some s \<Rightarrow>
          if length r = 0 then st
          else if looksLikeHeader r \<and> length (currentHeaders st) = 0 then
            st\<lparr>currentHeaders := map clean_header r\<rparr>
          else if length (currentHeaders st) > 0 \<and> length r = length (currentHeaders st) then
            st\<lparr>currentSection :=
                 Some (s\<lparr>data := data s @ [dcsc_obj (currentHeaders st) 0 r Map.empty]\<rparr>)\<rparr>
          else st)"

fun dcsc_rows :: "string list list \<Rightarrow> dcsc_state \<Rightarrow> dcsc_state" where
  "dcsc_rows [] st = st"
| "dcsc_rows (r # rs) st = dcsc_rows rs (dcsc_row st r)"

text \<open>The push after the loop, and after it the contents of \<open>allSections\<close>.\<close>

definition flush :: "dcsc_state \<Rightarrow> section list" where
  "flush st =
     (case currentSection st of
        Some s \<Rightarrow> if length (data s) > 0 then allSections st @ [s] else allSections st
      | None \<Rightarrow> allSections st)"

text \<open>The callback of \<^verbatim>\<open>rawData.tables.forEach\<close>, on the array \<open>allSections\<close>.\<close>

definition dcsc_table :: "section list \<Rightarrow> response_table \<Rightarrow> section list" where
  "dcsc_table acc t =
     flush (dcsc_rows (rows t) \<lparr>allSections = acc, currentSection = None, currentHeaders = []\<rparr>)"

fun number_sections :: "section list \<Rightarrow> nat \<Rightarrow> out_table list" where
  "number_sections [] idx = []"
| "number_sections (s # ss) idx =
     \<lparr>out_table_id = sec_table_id s, out_table_number = idx + 1,
      out_section_title = Some (section_title s), out_data = data s,
      out_total_rows = length (data s)\<rparr> # number_sections ss (idx + 1)"

definition parseDCSCTables :: "response_table envelope \<Rightarrow> out_table envelope" where
  "parseDCSCTables rawData =
     (let allS = foldl dcsc_table [] (tables rawData)
      in \<lparr>env_awb_number = env_awb_number rawData,
          service_name = service_name rawData,
          service_code = service_code rawData,
          env_extraction_time = env_extraction_time rawData,
          total_tables = length allS,
          tables = number_sections allS 0\<rparr>)"

subsection \<open>\<^verbatim>\<open>parseGMRTables\<close>\<close>

text \<open>
  The loop that finds the header row, from index \<open>i\<close>; \<open>headerRowIndex\<close> starts as 0.
  \<open>is_header_row\<close> is the condition of the loop's \<^verbatim>\<open>if\<close>.
\<close>

definition is_header_row :: "string list \<Rightarrow> bool" where
  "is_header_row r = (length r > 1 \<and> list_all (\<lambda>c. length c < 100) r)"

function header_scan :: "string list list \<Rightarrow> nat \<Rightarrow> nat" where
  "header_scan rs i =
     (if i < length rs
      then if is_header_row (rs ! i) then i else header_scan rs (i + 1)
      else 0)"
  by pat_completeness auto
termination
  by (relation "measure (\<lambda>(rs, i). length rs - i)") auto

declare header_scan.simps [simp del]

definition headerRowIndex :: "string list list \<Rightarrow> nat" where
  "headerRowIndex rs = header_scan rs 0"

text \<open>
  \<^verbatim>\<open>headers.forEach((header, i) => { if (header && row[i] !== undefined) { obj[header || `Column ${i + 1}`] = row[i] || '' } })\<close>
\<close>

fun gmr_obj :: "string list \<Rightarrow> nat \<Rightarrow> string list \<Rightarrow> obj \<Rightarrow> obj" where
  "gmr_obj [] i r ob = ob"
| "gmr_obj (header # hs) i r ob =
     gmr_obj hs (i + 1) r
       (if header \<noteq> [] \<and> i < length r
        then obj_set (if header \<noteq> [] then header else ''Column '' @ string_of_nat (i + 1))
                     (r ! i) ob
        else ob)"

text \<open>
  The callback of \<^verbatim>\<open>rawData.tables.map\<close>. \<^verbatim>\<open>rows[headerRowIndex]\<close> is undefined
  beyond the array, and calling \<^verbatim>\<open>map\<close> on it throws a TypeError.
\<close>

definition gmr_table :: "response_table \<Rightarrow> js_error + out_table" where
  "gmr_table t =
     (let rs = rows t; h = headerRowIndex rs
      in if h < length rs then
           let headers = map clean_header (rs ! h);
               dataRows = drop (h + 1) rs;
               cleanData = map (\<lambda>r. gmr_obj headers 0 r Map.empty) dataRows
           in Inr \<lparr>out_table_id = table_id t, out_table_number = table_number t,
                    out_section_title = None, out_data = cleanData,
                    out_total_rows = length cleanData\<rparr>
         else Inl TypeError)"

text \<open>\<^verbatim>\<open>Array.prototype.map\<close> with a callback that may throw: the first exception ends it.\<close>

fun map_throwing :: "('a \<Rightarrow> js_error + 'b) \<Rightarrow> 'a list \<Rightarrow> js_error + 'b list" where
  "map_throwing f [] = Inr []"
| "map_throwing f (x # xs) =
     (case f x of
        Inl e \<Rightarrow> Inl e
      | Inr y \<Rightarrow> (case map_throwing f xs of Inl e \<Rightarrow> Inl e | Inr ys \<Rightarrow> Inr (y # ys)))"

definition parseGMRTables :: "response_table envelope \<Rightarrow> js_error + out_table envelope" where
  "parseGMRTables rawData =
     (case map_throwing gmr_table (tables rawData) of
        Inl e \<Rightarrow> Inl e
      | Inr ts \<Rightarrow>
          Inr \<lparr>env_awb_number = env_awb_number rawData,
               service_name = service_name rawData,
               service_code = service_code rawData,
               env_extraction_time = env_extraction_time rawData,
               total_tables = total_tables rawData,
               tables = ts\<rparr>)"

subsection \<open>\<^verbatim>\<open>parseTableData\<close>\<close>

datatype parsed = Normalized "out_table envelope" | Unparsed "response_table envelope"

definition parseTableData :: "response_table envelope \<Rightarrow> js_error + parsed" where
  "parseTableData rawData =
     (let serviceCode = service_code rawData
      in if serviceCode = ''1'' then Inr (Normalized (parseDCSCTables rawData))
         else if serviceCode = ''2'' then
           (case parseGMRTables rawData of Inl e \<Rightarrow> Inl e | Inr out \<Rightarrow> Inr (Normalized out))
         else Inr (Unparsed rawData))"

section \<open>The whole run\<close>

text \<open>
  Extraction, response assembly and normalization of one fetched document, for the
  requested service and number and the two readings of the clock.
\<close>

definition run :: "string \<Rightarrow> string \<Rightarrow> html_table list \<Rightarrow> string \<Rightarrow> string \<Rightarrow> js_error + parsed" where
  "run svc awbNumber doc now_iso now_local =
     parseTableData
       (responseData (serviceOption svc)
          (parseHTML awbNumber (serviceOption svc) now_iso doc) now_local)"

section \<open>The specification's words\<close>

text \<open>
  The keys a header row gives: the header name, or the placeholder
  \<^verbatim>\<open>Column <1-based index>\<close> where the name is empty.
\<close>

definition derived_keys :: "string list \<Rightarrow> string list" where
  "derived_keys hs =
     map (\<lambda>(j, h). if h \<noteq> [] then h else ''Column '' @ string_of_nat (j + 1)) (enumerate 0 hs)"

text \<open>
  A row mapped positionally against the header keys: the key at each position holds the
  cell at that position, a later position winning where two keys are equal. The key
  \<^verbatim>\<open>__proto__\<close> holds nothing, as an assignment to it sets no property.
\<close>

definition positional_record :: "string list \<Rightarrow> string list \<Rightarrow> obj" where
  "positional_record hs r =
     map_of (rev (filter (\<lambda>(k, v). k \<noteq> ''__proto__'') (zip (derived_keys hs) r)))"

text \<open>
  The section-start events of a table, each with the rows of its section: those that
  follow it up to the next section-start event or the end of the table.
\<close>

fun section_events :: "string list list \<Rightarrow> (string list \<times> string list list) list" where
  "section_events [] = []"
| "section_events (r # rs) =
     (if is_section_start r
      then (r, takeWhile (\<lambda>x. \<not> is_section_start x) rs) # section_events rs
      else section_events rs)"

text \<open>
  The header row of a section is the first of its rows that is a header candidate; the
  rows before it are skipped. Its data rows are the rows after the header row with as
  many cells as the header row, and its records are the data rows, in order, each mapped
  positionally against the cleaned header row. A section without a header row has no
  records.
\<close>

definition section_header :: "string list list \<Rightarrow> string list option" where
  "section_header body = find looksLikeHeader body"

definition section_data_rows :: "string list list \<Rightarrow> string list list" where
  "section_data_rows body =
     (case dropWhile (\<lambda>x. \<not> looksLikeHeader x) body of
        [] \<Rightarrow> []
      | h # rest \<Rightarrow> filter (\<lambda>x. length x = length h) rest)"

definition section_records :: "string list list \<Rightarrow> obj list" where
  "section_records body =
     (case section_header body of
        None \<Rightarrow> []
      | Some h \<Rightarrow> map (positional_record (map clean_header h)) (section_data_rows body))"

text \<open>
  The section of a section-start event: titled by the trimmed cell of the event's row,
  with the id the code derives from that cell, and holding the section's records.
\<close>

definition spec_section :: "string list \<times> string list list \<Rightarrow> section" where
  "spec_section ev =
     \<lparr>section_title = trim (fst ev ! 0),
      sec_table_id = replace_ws ''_'' (toLowerCase (fst ev ! 0)),
      data = section_records (snd ev)\<rparr>"

text \<open>
  The header candidate as the specification words it: the date-like pattern is two digits,
  a hyphen, three letters, a hyphen and two digits, here looked for at every position of
  the cell.
\<close>

fun suffixes_of :: "string \<Rightarrow> string list" where
  "suffixes_of [] = [[]]"
| "suffixes_of (c # cs) = (c # cs) # suffixes_of cs"

definition spec_date_like :: "string \<Rightarrow> bool" where
  "spec_date_like c =
     list_ex (test_prefix [is_digit, is_digit, (=) CHR ''-'', is_letter, is_letter, is_letter,
                           (=) CHR ''-'', is_digit, is_digit]) (suffixes_of c)"

definition spec_header_candidate :: "string list \<Rightarrow> bool" where
  "spec_header_candidate r =
     (length r > 1 \<and> length r < 20 \<and>
      list_all (\<lambda>c. length c > 0 \<and> length c < 50) r \<and>
      \<not> list_ex spec_date_like r)"

text \<open>The extraction time of an output envelope, read and overwritten.\<close>

definition time_of :: "parsed \<Rightarrow> string" where
  "time_of p =
     (case p of Normalized e \<Rightarrow> env_extraction_time e | Unparsed e \<Rightarrow> env_extraction_time e)"

definition set_time :: "string \<Rightarrow> parsed \<Rightarrow> parsed" where
  "set_time t p =
     (case p of
        Normalized e \<Rightarrow> Normalized (e\<lparr>env_extraction_time := t\<rparr>)
      | Unparsed e \<Rightarrow> Unparsed (e\<lparr>env_extraction_time := t\<rparr>))"

section \<open>Properties of the string functions\<close>

lemma dropWhile_snoc_keeps: "\<not> P x \<Longrightarrow> \<exists>ys. dropWhile P (zs @ [x]) = ys @ [x]"
  by (induction zs) auto

lemma dropWhile_rev_fix:
  assumes np: "\<not> P x"
  shows "dropWhile P (rev (dropWhile P (rev (x # xs)))) = rev (dropWhile P (rev (x # xs)))"
proof -
  obtain ys where e: "dropWhile P (rev xs @ [x]) = ys @ [x]"
    using dropWhile_snoc_keeps [of P x "rev xs"] np by blast
  have "rev (x # xs) = rev xs @ [x]" by simp
  then have "dropWhile P (rev (x # xs)) = ys @ [x]" using e by (simp only:)
  then show ?thesis using np by simp
qed

lemma dropWhile_rev_trim:
  "dropWhile P (rev (dropWhile P (rev (dropWhile P s)))) = rev (dropWhile P (rev (dropWhile P s)))"
proof (cases "dropWhile P s")
  case Nil
  then show ?thesis by (simp only: rev.simps dropWhile.simps)
next
  case (Cons x xs)
  have "dropWhile P s \<noteq> []" using Cons by (simp only: list.distinct simp_thms)
  then have "\<not> P (hd (dropWhile P s))" by (rule hd_dropWhile)
  with Cons have "\<not> P x" by simp
  then have "dropWhile P (rev (dropWhile P (rev (x # xs)))) = rev (dropWhile P (rev (x # xs)))"
    by (rule dropWhile_rev_fix)
  with Cons show ?thesis by (simp only:)
qed

lemma trim_idem: "trim (trim s) = trim s"
  unfolding trim_def by (simp add: dropWhile_rev_trim dropWhile_idem)

section \<open>Properties of the grid extraction\<close>

lemma collect_cells_ok:
  "list_all cell_ok acc \<Longrightarrow> list_all cell_ok (collect_cells cs acc)"
  by (induction cs arbitrary: acc) (auto simp: Let_def cell_ok_def trim_idem)

lemma collect_rows_ok:
  "list_all row_ok acc \<Longrightarrow> list_all row_ok (collect_rows rs i acc)"
proof (induction rs arbitrary: i acc)
  case Nil
  then show ?case by simp
next
  case (Cons r rs)
  have "list_all cell_ok (collect_cells r [])"
    by (rule collect_cells_ok) simp
  with Cons show ?case
    by (simp add: Let_def row_ok_def)
qed

lemma collect_tables_ok:
  "list_all table_ok acc \<Longrightarrow> list_all table_ok (collect_tables ts n acc)"
proof (induction ts arbitrary: n acc)
  case Nil
  then show ?case by simp
next
  case (Cons t ts)
  have "list_all row_ok (collect_rows (trs t) 0 [])"
    by (rule collect_rows_ok) simp
  with Cons show ?case
    by (simp add: Let_def table_ok_def)
qed

lemma parseHTML_tables_ok: "list_all table_ok (all_tables (parseHTML awb opt now doc))"
  unfolding parseHTML_def by (simp add: collect_tables_ok)

section \<open>Properties of the header inference\<close>

lemma header_scan_found:
  "i \<le> k \<Longrightarrow> k < length rs \<Longrightarrow> is_header_row (rs ! k) \<Longrightarrow>
   i \<le> header_scan rs i \<and> header_scan rs i \<le> k \<and> is_header_row (rs ! header_scan rs i) \<and>
   (\<forall>j. i \<le> j \<and> j < header_scan rs i \<longrightarrow> \<not> is_header_row (rs ! j))"
proof (induction rs i rule: header_scan.induct)
  case (1 rs i)
  show ?case
  proof (cases "is_header_row (rs ! i)")
    case True
    with 1 show ?thesis by (auto simp add: header_scan.simps [of rs i])
  next
    case False
    with 1 have "i \<noteq> k" by auto
    with 1 have ik: "i + 1 \<le> k" by simp
    have il: "i < length rs" using 1 by simp
    from "1.IH" [OF il False ik "1.prems"(2) "1.prems"(3)]
    have ih: "i + 1 \<le> header_scan rs (i + 1) \<and> header_scan rs (i + 1) \<le> k \<and>
       is_header_row (rs ! header_scan rs (i + 1)) \<and>
       (\<forall>j. i + 1 \<le> j \<and> j < header_scan rs (i + 1) \<longrightarrow> \<not> is_header_row (rs ! j))" .
    have e: "header_scan rs i = header_scan rs (i + 1)"
      using il False by (simp add: header_scan.simps [of rs i])
    show ?thesis unfolding e using ih False
      by (metis Suc_eq_plus1 Suc_leI le_neq_implies_less add_leD1)
  qed
qed

lemma header_scan_none:
  "(\<forall>k. i \<le> k \<and> k < length rs \<longrightarrow> \<not> is_header_row (rs ! k)) \<Longrightarrow> header_scan rs i = 0"
proof (induction rs i rule: header_scan.induct)
  case (1 rs i)
  show ?case
  proof (cases "i < length rs")
    case True
    with 1 have n: "\<not> is_header_row (rs ! i)" by simp
    have "header_scan rs (i + 1) = 0"
      using "1.IH" [OF True n] "1.prems" by simp
    with True n show ?thesis by (simp add: header_scan.simps [of rs i])
  next
    case False
    then show ?thesis by (simp add: header_scan.simps [of rs i])
  qed
qed

lemma headerRowIndex_in_range: "rs \<noteq> [] \<Longrightarrow> headerRowIndex rs < length rs"
proof (cases "\<exists>k < length rs. is_header_row (rs ! k)")
  case True
  then obtain k where "k < length rs" "is_header_row (rs ! k)" by blast
  with header_scan_found [of 0 k rs] show ?thesis
    by (simp add: headerRowIndex_def)
next
  case False
  assume "rs \<noteq> []"
  with False header_scan_none [of 0 rs] show ?thesis
    by (simp add: headerRowIndex_def)
qed

lemma gmr_obj_untouched:
  "(\<forall>j < length hs. i + j < length r \<longrightarrow> hs ! j \<noteq> key) \<Longrightarrow> gmr_obj hs i r ob key = ob key"
proof (induction hs arbitrary: i ob)
  case Nil
  then show ?case by simp
next
  case (Cons h hs)
  have rest: "\<forall>j < length hs. (i + 1) + j < length r \<longrightarrow> hs ! j \<noteq> key"
    using Cons.prems by fastforce
  have first: "i < length r \<longrightarrow> h \<noteq> key"
    using Cons.prems by fastforce
  show ?case
    using Cons.IH [OF rest] first by (auto simp add: obj_set_def)
qed

lemma gmr_obj_lookup:
  "gmr_obj hs i r ob key = Some v \<Longrightarrow>
   ob key = Some v \<or> (\<exists>k < length hs. i + k < length r \<and> hs ! k = key \<and> v = r ! (i + k))"
proof (induction hs arbitrary: i ob)
  case Nil
  then show ?case by simp
next
  case (Cons h hs)
  let ?ob' = "if h \<noteq> [] \<and> i < length r
        then obj_set (if h \<noteq> [] then h else ''Column '' @ string_of_nat (i + 1)) (r ! i) ob
        else ob"
  from Cons.prems have "gmr_obj hs (i + 1) r ?ob' key = Some v" by simp
  from Cons.IH [OF this]
  consider "?ob' key = Some v"
    | k where "k < length hs" "(i + 1) + k < length r" "hs ! k = key" "v = r ! ((i + 1) + k)"
    by blast
  then show ?case
  proof cases
    case 1
    then have "ob key = Some v \<or> (i < length r \<and> h = key \<and> v = r ! i)"
      by (auto simp: obj_set_def split: if_splits)
    then show ?thesis by fastforce
  next
    case 2
    then have "Suc k < length (h # hs) \<and> i + Suc k < length r \<and> (h # hs) ! Suc k = key \<and> v = r ! (i + Suc k)"
      by simp
    then show ?thesis by blast
  qed
qed

lemma gmr_obj_last_wins:
  "k < length hs \<Longrightarrow> i + k < length r \<Longrightarrow> hs ! k \<noteq> [] \<Longrightarrow> hs ! k \<noteq> ''__proto__'' \<Longrightarrow>
   (\<forall>j < length hs. i + j < length r \<and> hs ! j = hs ! k \<longrightarrow> j \<le> k) \<Longrightarrow>
   gmr_obj hs i r ob (hs ! k) = Some (r ! (i + k))"
proof (induction hs arbitrary: i k ob)
  case Nil
  then show ?case by simp
next
  case (Cons h hs)
  show ?case
  proof (cases k)
    case 0
    have "\<forall>j < length hs. (i + 1) + j < length r \<longrightarrow> hs ! j \<noteq> h"
    proof (intro allI impI)
      fix j assume a: "j < length hs" "(i + 1) + j < length r"
      show "hs ! j \<noteq> h"
      proof
        assume "hs ! j = h"
        with a Cons.prems(5) [rule_format, of "Suc j"] 0 show False by simp
      qed
    qed
    from gmr_obj_untouched [OF this] Cons.prems 0 show ?thesis
      by (simp add: obj_set_def)
  next
    case (Suc k')
    have later: "\<forall>j < length hs. (i + 1) + j < length r \<and> hs ! j = hs ! k' \<longrightarrow> j \<le> k'"
    proof (intro allI impI)
      fix j assume "j < length hs" "(i + 1) + j < length r \<and> hs ! j = hs ! k'"
      with Cons.prems(5) [rule_format, of "Suc j"] Suc show "j \<le> k'" by simp
    qed
    from Cons.prems Suc have p: "k' < length hs" "(i + 1) + k' < length r"
      "hs ! k' \<noteq> []" "hs ! k' \<noteq> ''__proto__''" by simp_all
    from Cons.IH [OF p later] Suc show ?thesis by simp
  qed
qed

lemma gmr_obj_dom:
  "dom (gmr_obj hs i r ob) =
   dom ob \<union> {hs ! k | k. k < length hs \<and> i + k < length r \<and> hs ! k \<noteq> [] \<and> hs ! k \<noteq> ''__proto__''}"
proof (induction hs arbitrary: i ob)
  case Nil
  then show ?case by simp
next
  case (Cons h hs)
  let ?K = "\<lambda>hs i. {hs ! k | k. k < length hs \<and> i + k < length r \<and> hs ! k \<noteq> [] \<and> hs ! k \<noteq> ''__proto__''}"
  have shift: "?K (h # hs) i = (if h \<noteq> [] \<and> i < length r \<and> h \<noteq> ''__proto__'' then {h} else {}) \<union> ?K hs (i + 1)"
    (is "?L = ?R")
  proof (intro set_eqI iffI)
    fix x assume "x \<in> ?L"
    then obtain k where k: "x = (h # hs) ! k" "k < length (h # hs)" "i + k < length r"
      "(h # hs) ! k \<noteq> []" "(h # hs) ! k \<noteq> ''__proto__''" by blast
    show "x \<in> ?R"
    proof (cases k)
      case 0
      with k show ?thesis by simp
    next
      case (Suc k')
      with k have "x = hs ! k' \<and> k' < length hs \<and> (i + 1) + k' < length r \<and> hs ! k' \<noteq> [] \<and> hs ! k' \<noteq> ''__proto__''"
        by simp
      then show ?thesis by blast
    qed
  next
    fix x assume "x \<in> ?R"
    then consider "x = h" "h \<noteq> []" "i < length r" "h \<noteq> ''__proto__''"
      | k where "x = hs ! k" "k < length hs" "(i + 1) + k < length r" "hs ! k \<noteq> []" "hs ! k \<noteq> ''__proto__''"
      by (auto split: if_splits)
    then show "x \<in> ?L"
    proof cases
      case 1
      then have "x = (h # hs) ! 0 \<and> 0 < length (h # hs) \<and> i + 0 < length r \<and> (h # hs) ! 0 \<noteq> [] \<and> (h # hs) ! 0 \<noteq> ''__proto__''"
        by simp
      then show ?thesis by blast
    next
      case 2
      then have "x = (h # hs) ! Suc k \<and> Suc k < length (h # hs) \<and> i + Suc k < length r \<and> (h # hs) ! Suc k \<noteq> [] \<and> (h # hs) ! Suc k \<noteq> ''__proto__''"
        by simp
      then show ?thesis by blast
    qed
  qed
  show ?case
    unfolding shift by (auto simp: Cons.IH obj_set_def split: if_splits)
qed

lemma gmr_table_ok:
  "rows t \<noteq> [] \<Longrightarrow>
   gmr_table t =
     Inr \<lparr>out_table_id = table_id t, out_table_number = table_number t,
          out_section_title = None,
          out_data = map (\<lambda>r. gmr_obj (map clean_header (rows t ! headerRowIndex (rows t))) 0 r Map.empty)
                       (drop (headerRowIndex (rows t) + 1) (rows t)),
          out_total_rows = length (rows t) - (headerRowIndex (rows t) + 1)\<rparr>"
  using headerRowIndex_in_range [of "rows t"]
  by (simp add: gmr_table_def Let_def)

lemma gmr_table_empty: "rows t = [] \<Longrightarrow> gmr_table t = Inl TypeError"
  by (simp add: gmr_table_def Let_def)

lemma headerRowIndex_first:
  "i < length rs \<Longrightarrow> is_header_row (rs ! i) \<Longrightarrow>
   headerRowIndex rs < length rs \<and> is_header_row (rs ! headerRowIndex rs) \<and>
   (\<forall>j < headerRowIndex rs. \<not> is_header_row (rs ! j))"
  using header_scan_found [of 0 i rs] by (simp add: headerRowIndex_def)

lemma headerRowIndex_default:
  "(\<forall>i < length rs. \<not> is_header_row (rs ! i)) \<Longrightarrow> headerRowIndex rs = 0"
  using header_scan_none [of 0 rs] by (simp add: headerRowIndex_def)

lemma usefulTables_subset: "set (usefulTables opt d) \<subseteq> set (all_tables d)"
  by (auto simp: usefulTables_def)

lemma number_tables_rows:
  "t' \<in> set (number_tables ts i) \<Longrightarrow>
   \<exists>t \<in> set ts. rows t' = map (\<lambda>r. map text (cells r)) (rows t)"
  by (induction ts arbitrary: i) auto

lemma map_throwing_ok:
  "(\<forall>x \<in> set xs. \<exists>y. f x = Inr y) \<Longrightarrow> \<exists>ys. map_throwing f xs = Inr ys"
  by (induction xs) auto

lemma map_throwing_fails:
  "x \<in> set xs \<Longrightarrow> f x = Inl TypeError \<Longrightarrow> map_throwing f xs = Inl TypeError"
proof (induction xs)
  case Nil
  then show ?case by simp
next
  case (Cons a xs)
  show ?case
  proof (cases "f a")
    case (Inl e)
    then show ?thesis by (cases e) simp
  next
    case (Inr y)
    with Cons show ?thesis by (auto split: sum.splits)
  qed
qed

lemma response_rows_nonempty:
  assumes "t' \<in> set (tables (responseData opt (parseHTML awb opt' now doc) now'))"
  shows "rows t' \<noteq> [] \<and> [] \<notin> set (rows t')"
proof -
  let ?d = "parseHTML awb opt' now doc"
  from assms have "t' \<in> set (number_tables (usefulTables opt ?d) 0)"
    by (simp add: responseData_def)
  then obtain t where t: "t \<in> set (usefulTables opt ?d)"
    and r: "rows t' = map (\<lambda>r. map text (cells r)) (rows t)"
    using number_tables_rows by blast
  from t usefulTables_subset have "t \<in> set (all_tables ?d)" by blast
  with parseHTML_tables_ok [of awb opt' now doc] have "table_ok t"
    by (simp add: list_all_iff)
  then show ?thesis
    unfolding r by (auto simp: table_ok_def row_ok_def list_all_iff)
qed

lemma test_prefix_Nil: "test_prefix [] s"
  by (simp add: test_prefix_def)

lemma test_prefix_Cons:
  "test_prefix (p # ps) s \<longleftrightarrow> (\<exists>c cs. s = c # cs \<and> p c \<and> test_prefix ps cs)"
  by (cases s) (auto simp: test_prefix_def)

lemma date_regex_iff:
  "date_regex c \<longleftrightarrow>
   (\<exists>d1 d2 w1 w2 w3 d3 d4 rest.
      c = d1 # d2 # CHR ''-'' # w1 # w2 # w3 # CHR ''-'' # d3 # d4 # rest \<and>
      is_digit d1 \<and> is_digit d2 \<and> is_word w1 \<and> is_word w2 \<and> is_word w3 \<and>
      is_digit d3 \<and> is_digit d4)"
  unfolding date_regex_def test_prefix_Cons by (auto simp: test_prefix_Nil)

lemma looksLikeHeader_iff:
  "looksLikeHeader r \<longleftrightarrow>
   1 < length r \<and> length r < 20 \<and> (\<forall>c \<in> set r. 0 < length c \<and> length c < 50) \<and>
   \<not> (\<exists>c \<in> set r. date_regex c)"
  by (simp add: looksLikeHeader_def list_all_iff list_ex_iff)

lemma looksLikeHeader_not_start: "looksLikeHeader r \<Longrightarrow> \<not> is_section_start r"
  by (simp add: looksLikeHeader_def is_section_start_def)

lemma dcsc_row_header:
  assumes "currentSection st = Some s" "currentHeaders st = []"
  shows "dcsc_row st r =
     (if is_section_start r
      then \<lparr>allSections = flush st, currentSection = Some (new_section r), currentHeaders = []\<rparr>
      else if looksLikeHeader r then st\<lparr>currentHeaders := map clean_header r\<rparr>
      else st)"
  using assms by (auto simp: dcsc_row_def flush_def looksLikeHeader_def)

lemma dcsc_row_start:
  "is_section_start r \<Longrightarrow>
   dcsc_row st r = \<lparr>allSections = flush st, currentSection = Some (new_section r), currentHeaders = []\<rparr>"
  by (simp add: dcsc_row_def flush_def)

lemma flush_split: "flush st = allSections st @ flush (st\<lparr>allSections := []\<rparr>)"
  by (simp add: flush_def split: option.splits)

lemma flush_emits:
  "flush st = allSections st @ (case currentSection st of
                                  Some s \<Rightarrow> if data s \<noteq> [] then [s] else []
                                | None \<Rightarrow> [])"
  by (simp add: flush_def split: option.splits)

lemma dcsc_row_allSections:
  "\<not> is_section_start r \<Longrightarrow> allSections (dcsc_row st r) = allSections st"
  by (simp add: dcsc_row_def split: option.splits)

lemma dcsc_row_frame:
  "\<not> is_section_start r \<Longrightarrow>
   dcsc_row (st\<lparr>allSections := a\<rparr>) r = (dcsc_row st r)\<lparr>allSections := a\<rparr>"
  by (simp add: dcsc_row_def split: option.splits)

lemma dcsc_row_keeps_section:
  "\<not> is_section_start r \<Longrightarrow>
   (currentSection (dcsc_row st r) = None) = (currentSection st = None)"
  by (simp add: dcsc_row_def split: option.splits)

lemma dcsc_rows_allSections:
  "\<forall>r \<in> set rs. \<not> is_section_start r \<Longrightarrow> allSections (dcsc_rows rs st) = allSections st"
  by (induction rs arbitrary: st) (simp_all add: dcsc_row_allSections)

lemma dcsc_rows_frame:
  "\<forall>r \<in> set rs. \<not> is_section_start r \<Longrightarrow>
   dcsc_rows rs (st\<lparr>allSections := a\<rparr>) = (dcsc_rows rs st)\<lparr>allSections := a\<rparr>"
  by (induction rs arbitrary: st) (simp_all add: dcsc_row_frame)

lemma dcsc_rows_keeps_section:
  "\<forall>r \<in> set rs. \<not> is_section_start r \<Longrightarrow>
   (currentSection (dcsc_rows rs st) = None) = (currentSection st = None)"
  by (induction rs arbitrary: st) (simp_all add: dcsc_row_keeps_section)

lemma takeWhile_no_start: "\<forall>r \<in> set (takeWhile (\<lambda>x. \<not> is_section_start x) rs). \<not> is_section_start r"
  by (auto dest: set_takeWhileD)

lemma number_sections_length: "length (number_sections ss i) = length ss"
  by (induction ss arbitrary: i) simp_all

lemma number_sections_nth:
  "k < length ss \<Longrightarrow>
   number_sections ss i ! k =
     \<lparr>out_table_id = sec_table_id (ss ! k), out_table_number = i + k + 1,
      out_section_title = Some (section_title (ss ! k)), out_data = data (ss ! k),
      out_total_rows = length (data (ss ! k))\<rparr>"
proof (induction ss arbitrary: i k)
  case Nil
  then show ?case by simp
next
  case (Cons s ss)
  then show ?case by (cases k) simp_all
qed

lemma startsWith_iff: "startsWith s p \<longleftrightarrow> (\<exists>post. s = p @ post)"
proof
  assume "startsWith s p"
  then have "s = p @ drop (length p) s"
    unfolding startsWith_def by (metis append_take_drop_id)
  then show "\<exists>post. s = p @ post" ..
next
  assume "\<exists>post. s = p @ post"
  then show "startsWith s p" by (auto simp: startsWith_def)
qed

lemma str_includes_iff: "str_includes s p \<longleftrightarrow> (\<exists>pre post. s = pre @ p @ post)"
proof (induction s)
  case Nil
  then show ?case by simp
next
  case (Cons c cs)
  show ?case
  proof
    assume "str_includes (c # cs) p"
    then consider "startsWith (c # cs) p" | "str_includes cs p" by auto
    then show "\<exists>pre post. c # cs = pre @ p @ post"
    proof cases
      case 1
      then obtain post where "c # cs = [] @ p @ post" by (auto simp: startsWith_iff)
      then show ?thesis by blast
    next
      case 2
      with Cons obtain pre post where "cs = pre @ p @ post" by blast
      then have "c # cs = (c # pre) @ p @ post" by simp
      then show ?thesis by blast
    qed
  next
    assume "\<exists>pre post. c # cs = pre @ p @ post"
    then obtain pre post where e: "c # cs = pre @ p @ post" by blast
    show "str_includes (c # cs) p"
    proof (cases pre)
      case Nil
      with e have "startsWith (c # cs) p" by (auto simp: startsWith_iff)
      then show ?thesis by simp
    next
      case (Cons a pre')
      with e have "cs = pre' @ p @ post" by simp
      with Cons.IH show ?thesis by auto
    qed
  qed
qed

lemma section_events_starts: "map fst (section_events rs) = filter is_section_start rs"
  by (induction rs) simp_all

lemma new_section_data [simp]: "data (new_section r) = []"
  by (simp add: new_section_def)

lemma new_section_title [simp]: "section_title (new_section r) = trim (r ! 0)"
  by (simp add: new_section_def)

lemma derived_keys_length: "length (derived_keys hs) = length hs"
  by (simp add: derived_keys_def)

lemma keys_of_named:
  "[] \<notin> set hs \<Longrightarrow>
   map (\<lambda>(j, h). if h \<noteq> [] then h else ''Column '' @ string_of_nat (j + 1)) (enumerate n hs) = hs"
  by (induction hs arbitrary: n) auto

lemma derived_keys_named: "[] \<notin> set hs \<Longrightarrow> derived_keys hs = hs"
  by (simp add: derived_keys_def keys_of_named)

lemma named_in_keys:
  "h \<in> set hs \<Longrightarrow> h \<noteq> [] \<Longrightarrow>
   h \<in> set (map (\<lambda>(j, h). if h \<noteq> [] then h else ''Column '' @ string_of_nat (j + 1)) (enumerate n hs))"
  by (induction hs arbitrary: n) auto

lemma gmr_obj_keys_subset: "dom (gmr_obj hs 0 r Map.empty) \<subseteq> set (derived_keys hs)"
proof
  fix x assume "x \<in> dom (gmr_obj hs 0 r Map.empty)"
  then obtain k where "x = hs ! k" "k < length hs" "hs ! k \<noteq> []"
    by (auto simp: gmr_obj_dom)
  then have "x \<in> set hs" "x \<noteq> []" by simp_all
  then show "x \<in> set (derived_keys hs)"
    unfolding derived_keys_def by (rule named_in_keys)
qed

lemma gmr_obj_keys_full:
  assumes "length hs \<le> length r" "[] \<notin> set hs" "''__proto__'' \<notin> set hs"
  shows "dom (gmr_obj hs 0 r Map.empty) = set hs"
proof -
  have "{hs ! k | k. k < length hs \<and> 0 + k < length r \<and> hs ! k \<noteq> [] \<and> hs ! k \<noteq> ''__proto__''}
        = {hs ! k | k. k < length hs}"
    using assms by (auto simp: in_set_conv_nth)
  then show ?thesis
    by (simp add: gmr_obj_dom set_conv_nth)
qed

lemma scenario2_sections:
  "dcsc_table [] \<lparr>table_number = 1, table_id = ''t'', total_rows = 3,
       rows = [[''A DETAILS''], [''Date'', ''Status''], [''05-Jan-24'', ''Arrived'']]\<rparr>
   = [\<lparr>section_title = ''A DETAILS'', sec_table_id = ''a_details'',
       data = [[''Date'' \<mapsto> ''05-Jan-24'', ''Status'' \<mapsto> ''Arrived'']]\<rparr>]"
proof -
  let ?st0 = "\<lparr>allSections = [], currentSection = None, currentHeaders = []\<rparr>"
  let ?s = "\<lparr>section_title = ''A DETAILS'', sec_table_id = ''a_details'', data = []\<rparr>"
  let ?st1 = "\<lparr>allSections = [], currentSection = Some ?s, currentHeaders = []\<rparr>"
  let ?st2 = "\<lparr>allSections = [], currentSection = Some ?s, currentHeaders = [''Date'', ''Status'']\<rparr>"
  let ?st3 = "\<lparr>allSections = [],
      currentSection = Some (?s\<lparr>data := [[''Date'' \<mapsto> ''05-Jan-24'', ''Status'' \<mapsto> ''Arrived'']]\<rparr>),
      currentHeaders = [''Date'', ''Status'']\<rparr>"
  have low: "toLowerCase ''A DETAILS'' = ''a details''"
    by code_simp
  have ns: "new_section [''A DETAILS''] = ?s"
    by (simp add: new_section_def low trim_def is_space_def)
  have s1: "dcsc_row ?st0 [''A DETAILS''] = ?st1"
    by (simp add: dcsc_row_def is_section_start_def startsWith_def ns)
  have s2: "dcsc_row ?st1 [''Date'', ''Status''] = ?st2"
    by (simp add: dcsc_row_def is_section_start_def looksLikeHeader_def date_regex_def
        test_prefix_def is_digit_def clean_header_def trim_def is_space_def)
  have s3: "dcsc_row ?st2 [''05-Jan-24'', ''Arrived''] = ?st3"
    by (simp add: dcsc_row_def is_section_start_def looksLikeHeader_def date_regex_def
        test_prefix_def is_digit_def is_word_def is_letter_def is_upper_def is_lower_def
        obj_set_def)
  show ?thesis
    by (simp add: dcsc_table_def s1 s2 s3 flush_def)
qed

lemma number_tables_length: "length (number_tables ts i) = length ts"
  by (induction ts arbitrary: i) simp_all

lemma number_tables_nth:
  "k < length ts \<Longrightarrow>
   number_tables ts i ! k =
     \<lparr>table_number = i + k + 1, table_id = table_id (ts ! k), total_rows = length (rows (ts ! k)),
      rows = map (\<lambda>r. map text (cells r)) (rows (ts ! k))\<rparr>"
proof (induction ts arbitrary: i k)
  case Nil
  then show ?case by simp
next
  case (Cons t ts)
  then show ?case by (cases k) simp_all
qed

lemma number_tables_numbers: "map table_number (number_tables ts i) = [i + 1 ..< i + 1 + length ts]"
proof (induction ts arbitrary: i)
  case Nil
  then show ?case by simp
next
  case (Cons t ts)
  have "[i + 1 ..< i + 1 + length (t # ts)] = (i + 1) # [i + 1 + 1 ..< i + 1 + 1 + length ts]"
    by (subst upt_rec) simp
  with Cons show ?case by simp
qed

lemma number_sections_numbers:
  "map out_table_number (number_sections ss i) = [i + 1 ..< i + 1 + length ss]"
proof (induction ss arbitrary: i)
  case Nil
  then show ?case by simp
next
  case (Cons s ss)
  have "[i + 1 ..< i + 1 + length (s # ss)] = (i + 1) # [i + 1 + 1 ..< i + 1 + 1 + length ss]"
    by (subst upt_rec) simp
  with Cons show ?case by simp
qed

lemma map_throwing_map:
  "map_throwing f xs = Inr ys \<Longrightarrow> length ys = length xs \<and> (\<forall>k < length xs. f (xs ! k) = Inr (ys ! k))"
proof (induction xs arbitrary: ys)
  case Nil
  then show ?case by simp
next
  case (Cons x xs)
  from Cons.prems obtain y ys' where y: "f x = Inr y" "map_throwing f xs = Inr ys'" "ys = y # ys'"
    by (auto split: sum.splits)
  from Cons.IH [OF y(2)] y show ?case
    by (auto simp: nth_Cons split: nat.splits)
qed

lemma gmr_table_number: "gmr_table t = Inr out \<Longrightarrow> out_table_number out = table_number t \<and> out_table_id out = table_id t"
  by (auto simp: gmr_table_def Let_def split: if_splits)

lemma parseGMRTables_keeps:
  assumes "parseGMRTables rawData = Inr out"
  shows "length (tables out) = length (tables rawData) \<and>
         map out_table_number (tables out) = map table_number (tables rawData)"
proof -
  from assms obtain ts where ts: "map_throwing gmr_table (tables rawData) = Inr ts" "tables out = ts"
    by (auto simp: parseGMRTables_def split: sum.splits)
  from map_throwing_map [OF ts(1)]
  have len: "length ts = length (tables rawData)"
    and each: "\<forall>k < length (tables rawData). gmr_table (tables rawData ! k) = Inr (ts ! k)"
    by simp_all
  have "map out_table_number ts = map table_number (tables rawData)"
  proof (rule nth_equalityI)
    show "length (map out_table_number ts) = length (map table_number (tables rawData))"
      using len by simp
  next
    fix k assume "k < length (map out_table_number ts)"
    then have k: "k < length (tables rawData)" using len by simp
    with each have "gmr_table (tables rawData ! k) = Inr (ts ! k)" by blast
    from gmr_table_number [OF this] k len
    show "map out_table_number ts ! k = map table_number (tables rawData) ! k" by simp
  qed
  with len ts show ?thesis by simp
qed

lemma responseData_ignores_iso:
  "responseData opt (parseHTML awb opt' n1 doc) now = responseData opt (parseHTML awb opt' m1 doc) now"
  by (simp add: responseData_def parseHTML_def usefulTables_def)

lemma responseData_time:
  "responseData opt d n2 = (responseData opt d m2)\<lparr>env_extraction_time := n2\<rparr>"
  by (simp add: responseData_def)

lemma parseDCSCTables_time:
  "parseDCSCTables (raw\<lparr>env_extraction_time := t\<rparr>) = (parseDCSCTables raw)\<lparr>env_extraction_time := t\<rparr>"
  by (simp add: parseDCSCTables_def Let_def)

lemma parseGMRTables_time:
  "parseGMRTables (raw\<lparr>env_extraction_time := t\<rparr>) =
   (case parseGMRTables raw of Inl e \<Rightarrow> Inl e | Inr out \<Rightarrow> Inr (out\<lparr>env_extraction_time := t\<rparr>))"
  by (simp add: parseGMRTables_def split: sum.splits)

lemma parseTableData_time:
  "parseTableData (raw\<lparr>env_extraction_time := t\<rparr>) = map_sum id (set_time t) (parseTableData raw)"
  by (simp add: parseTableData_def Let_def parseDCSCTables_time parseGMRTables_time set_time_def
      split: sum.splits)

lemma set_time_twice: "set_time t (set_time u p) = set_time t p"
  by (cases p) (simp_all add: set_time_def)

lemma time_of_set_time: "time_of (set_time t p) = t"
  by (cases p) (simp_all add: set_time_def time_of_def)

lemma run_as_set_time:
  "run svc awb doc n1 n2 = map_sum id (set_time n2) (run svc awb doc m1 m2)"
proof -
  let ?opt = "serviceOption svc"
  let ?d = "parseHTML awb ?opt m1 doc"
  have "run svc awb doc n1 n2 = parseTableData (responseData ?opt ?d n2)"
    unfolding run_def by (simp only: responseData_ignores_iso [of ?opt awb ?opt n1 doc n2 m1])
  also have "\<dots> = parseTableData ((responseData ?opt ?d m2)\<lparr>env_extraction_time := n2\<rparr>)"
    by (simp only: responseData_time [of ?opt ?d n2 m2])
  also have "\<dots> = map_sum id (set_time n2) (parseTableData (responseData ?opt ?d m2))"
    by (rule parseTableData_time)
  finally show ?thesis by (simp only: run_def)
qed

lemma run_returns: "\<exists>p. run svc awb doc n1 n2 = Inr p"
proof -
  let ?raw = "responseData (serviceOption svc) (parseHTML awb (serviceOption svc) n1 doc) n2"
  have "\<forall>t' \<in> set (tables ?raw). rows t' \<noteq> []"
    using response_rows_nonempty by blast
  then have "\<forall>t' \<in> set (tables ?raw). \<exists>y. gmr_table t' = Inr y"
    by (simp add: gmr_table_ok)
  then obtain ys where "map_throwing gmr_table (tables ?raw) = Inr ys"
    using map_throwing_ok by blast
  then have "\<exists>out. parseGMRTables ?raw = Inr out" by (simp add: parseGMRTables_def)
  then show ?thesis
    by (auto simp: run_def parseTableData_def Let_def)
qed

lemma run_time: "run svc awb doc n1 n2 = Inr p \<Longrightarrow> time_of p = n2"
proof -
  assume a: "run svc awb doc n1 n2 = Inr p"
  from run_returns [of svc awb doc n1 n2] obtain q where q: "run svc awb doc n1 n2 = Inr q" by blast
  from run_as_set_time [of svc awb doc n1 n2 n1 n2] q have "Inr q = Inr (set_time n2 q)"
    by simp
  with a q show ?thesis by (metis time_of_set_time sum.inject(2))
qed

lemma run_other_service: "svc \<noteq> ''gmr'' \<Longrightarrow> run svc awb doc n1 n2 = run ''dcsc'' awb doc n1 n2"
  by (simp add: run_def serviceOption_def)

lemma dcsc_obj_as_map_of:
  "dcsc_obj hs j r ob =
   ob ++ map_of (rev (filter (\<lambda>(k, v). k \<noteq> ''__proto__'')
           (zip (map (\<lambda>(j, h). if h \<noteq> [] then h else ''Column '' @ string_of_nat (j + 1))
                     (enumerate j hs))
                (map (\<lambda>i. if i < length r then r ! i else []) [j ..< j + length hs]))))"
proof (induction hs arbitrary: j ob)
  case Nil
  then show ?case by simp
next
  case (Cons h hs)
  have u: "[j ..< j + length (h # hs)] = j # [Suc j ..< Suc j + length hs]"
    by (subst upt_rec) simp
  show ?case
    unfolding u
    by (simp add: Cons.IH obj_set_def map_add_upd_left [symmetric] del: upt_Suc)
qed

lemma cells_of_row: "map (\<lambda>i. if i < length r then r ! i else []) [0 ..< length r] = (r :: string list)"
  by (rule nth_equalityI) simp_all

lemma dcsc_obj_positional:
  "length r = length hs \<Longrightarrow> dcsc_obj hs 0 r Map.empty = positional_record hs r"
  using cells_of_row [of r]
  by (simp add: dcsc_obj_as_map_of [of hs 0 r Map.empty] positional_record_def derived_keys_def)

lemma positional_record_dom:
  assumes "length r = length hs"
  shows "dom (positional_record hs r) = set (derived_keys hs) - {''__proto__''}"
proof -
  let ?z = "zip (derived_keys hs) r"
  have "map fst ?z = derived_keys hs"
    using assms by (simp add: derived_keys_length)
  then have f: "fst ` set ?z = set (derived_keys hs)"
    by (metis set_map)
  have "dom (positional_record hs r) = fst ` {p \<in> set ?z. fst p \<noteq> ''__proto__''}"
    by (simp add: positional_record_def dom_map_of_conv_image_fst case_prod_unfold)
  also have "\<dots> = fst ` set ?z - {''__proto__''}" by auto
  finally show ?thesis by (simp only: f)
qed

lemma section_data_rows_header:
  "looksLikeHeader r \<Longrightarrow> section_data_rows (r # rs) = filter (\<lambda>x. length x = length r) rs"
  by (simp add: section_data_rows_def)

lemma section_data_rows_skip:
  "\<not> looksLikeHeader r \<Longrightarrow> section_data_rows (r # rs) = section_data_rows rs"
  by (simp add: section_data_rows_def)

lemma section_records_header:
  "looksLikeHeader r \<Longrightarrow>
   section_records (r # rs) =
     map (positional_record (map clean_header r)) (filter (\<lambda>x. length x = length r) rs)"
  by (simp add: section_records_def section_header_def section_data_rows_header)

lemma section_records_skip:
  "\<not> looksLikeHeader r \<Longrightarrow> section_records (r # rs) = section_records rs"
  by (simp add: section_records_def section_header_def section_data_rows_skip split: option.splits)

lemma section_records_Nil: "section_records [] = []"
  by (simp add: section_records_def section_header_def)

lemma dcsc_row_data_row:
  assumes "hdr \<noteq> []" "\<not> is_section_start r"
  shows "dcsc_row \<lparr>allSections = a, currentSection = Some s, currentHeaders = hdr\<rparr> r =
     \<lparr>allSections = a,
      currentSection = Some (s\<lparr>data := data s @ map (\<lambda>r. dcsc_obj hdr 0 r Map.empty)
                                                     (filter (\<lambda>x. length x = length hdr) [r])\<rparr>),
      currentHeaders = hdr\<rparr>"
  using assms by (auto simp: dcsc_row_def)

lemma has_header_run:
  assumes "hdr \<noteq> []"
  shows "\<forall>r \<in> set rs. \<not> is_section_start r \<Longrightarrow>
   dcsc_rows rs \<lparr>allSections = a, currentSection = Some s, currentHeaders = hdr\<rparr> =
     \<lparr>allSections = a,
      currentSection = Some (s\<lparr>data := data s @ map (\<lambda>r. dcsc_obj hdr 0 r Map.empty)
                                                     (filter (\<lambda>x. length x = length hdr) rs)\<rparr>),
      currentHeaders = hdr\<rparr>"
proof (induction rs arbitrary: s)
  case Nil
  then show ?case by simp
next
  case (Cons r rs)
  from Cons.prems have n: "\<not> is_section_start r" and rest: "\<forall>r \<in> set rs. \<not> is_section_start r"
    by simp_all
  show ?case
    by (simp only: dcsc_rows.simps dcsc_row_data_row [OF assms n] Cons.IH [OF rest]) simp
qed

lemma dcsc_row_no_header:
  assumes "\<not> is_section_start r"
  shows "dcsc_row \<lparr>allSections = a, currentSection = Some s, currentHeaders = []\<rparr> r =
     \<lparr>allSections = a, currentSection = Some s,
      currentHeaders = (if looksLikeHeader r then map clean_header r else [])\<rparr>"
  using assms by (auto simp: dcsc_row_def looksLikeHeader_def)

lemma no_header_run:
  "\<forall>r \<in> set rs. \<not> is_section_start r \<Longrightarrow> data s = [] \<Longrightarrow>
   currentSection (dcsc_rows rs \<lparr>allSections = a, currentSection = Some s, currentHeaders = []\<rparr>)
     = Some (s\<lparr>data := section_records rs\<rparr>)"
proof (induction rs)
  case Nil
  then show ?case by (simp add: section_records_Nil)
next
  case (Cons r rs)
  from Cons.prems have n: "\<not> is_section_start r" and rest: "\<forall>r \<in> set rs. \<not> is_section_start r"
    by simp_all
  show ?case
  proof (cases "looksLikeHeader r")
    case True
    then have ne: "map clean_header r \<noteq> []" by (auto simp: looksLikeHeader_def)
    have conv: "map (\<lambda>x. dcsc_obj (map clean_header r) 0 x Map.empty)
                  (filter (\<lambda>x. length x = length r) rs)
              = map (positional_record (map clean_header r)) (filter (\<lambda>x. length x = length r) rs)"
      by (rule map_cong) (simp_all add: dcsc_obj_positional)
    show ?thesis
      using True Cons.prems(2)
      by (simp add: dcsc_row_no_header [OF n] has_header_run [OF ne rest] conv
          section_records_header)
  next
    case False
    then show ?thesis
      using Cons.IH [OF rest Cons.prems(2)]
      by (simp add: dcsc_row_no_header [OF n] section_records_skip)
  qed
qed

lemma new_section_filled:
  "(new_section r)\<lparr>data := section_records body\<rparr> = spec_section (r, body)"
  by (simp add: new_section_def spec_section_def)

lemma flush_segment:
  assumes "\<forall>x \<in> set body. \<not> is_section_start x"
  shows "flush ((dcsc_rows body
            \<lparr>allSections = a, currentSection = Some (new_section r), currentHeaders = []\<rparr>)
          \<lparr>allSections := []\<rparr>)
   = filter (\<lambda>s. data s \<noteq> []) [spec_section (r, body)]"
proof -
  have "currentSection (dcsc_rows body
          \<lparr>allSections = a, currentSection = Some (new_section r), currentHeaders = []\<rparr>)
        = Some (spec_section (r, body))"
    using no_header_run [OF assms, of "new_section r" a] by (simp add: new_section_filled)
  then show ?thesis by (simp add: flush_def)
qed

lemma flush_dcsc_rows:
  "flush (dcsc_rows rs st) =
   allSections st
   @ flush ((dcsc_rows (takeWhile (\<lambda>x. \<not> is_section_start x) rs) st)\<lparr>allSections := []\<rparr>)
   @ filter (\<lambda>s. data s \<noteq> []) (map spec_section (section_events rs))"
proof (induction rs arbitrary: st)
  case Nil
  show ?case using flush_split [of st] by simp
next
  case (Cons r rs)
  show ?case
  proof (cases "is_section_start r")
    case True
    let ?st' = "\<lparr>allSections = flush st, currentSection = Some (new_section r), currentHeaders = []\<rparr>"
    have "flush (dcsc_rows (r # rs) st) = flush (dcsc_rows rs ?st')"
      using True by (simp add: dcsc_row_start)
    also have "\<dots> = flush st
        @ flush ((dcsc_rows (takeWhile (\<lambda>x. \<not> is_section_start x) rs) ?st')\<lparr>allSections := []\<rparr>)
        @ filter (\<lambda>s. data s \<noteq> []) (map spec_section (section_events rs))"
      using Cons.IH [of ?st'] by simp
    also have "\<dots> = flush st
        @ filter (\<lambda>s. data s \<noteq> []) [spec_section (r, takeWhile (\<lambda>x. \<not> is_section_start x) rs)]
        @ filter (\<lambda>s. data s \<noteq> []) (map spec_section (section_events rs))"
      by (simp only: flush_segment [OF takeWhile_no_start])
    also have "\<dots> = allSections st @ flush (st\<lparr>allSections := []\<rparr>)
        @ filter (\<lambda>s. data s \<noteq> []) (map spec_section (section_events (r # rs)))"
      using True flush_split [of st] by simp
    finally show ?thesis using True by simp
  next
    case False
    then show ?thesis
      using Cons.IH [of "dcsc_row st r"] by (simp add: dcsc_row_allSections)
  qed
qed

lemma dcsc_table_sections:
  "dcsc_table acc t = acc @ filter (\<lambda>s. data s \<noteq> []) (map spec_section (section_events (rows t)))"
proof -
  let ?st = "\<lparr>allSections = acc, currentSection = None, currentHeaders = []\<rparr>"
  have "currentSection (dcsc_rows (takeWhile (\<lambda>x. \<not> is_section_start x) (rows t)) ?st) = None"
    using dcsc_rows_keeps_section [where st = ?st, OF takeWhile_no_start, of "rows t"] by simp
  then have "flush ((dcsc_rows (takeWhile (\<lambda>x. \<not> is_section_start x) (rows t)) ?st)\<lparr>allSections := []\<rparr>) = []"
    by (simp add: flush_def)
  then show ?thesis
    unfolding dcsc_table_def flush_dcsc_rows [of "rows t" ?st] by simp
qed

lemma foldl_dcsc_table:
  "foldl dcsc_table acc ts =
   acc @ concat (map (\<lambda>t. filter (\<lambda>s. data s \<noteq> []) (map spec_section (section_events (rows t)))) ts)"
  by (induction ts arbitrary: acc) (simp_all add: dcsc_table_sections)

lemma section_events_rows:
  "(start, body) \<in> set (section_events rs) \<Longrightarrow>
   is_section_start start \<and> start \<in> set rs \<and> set body \<subseteq> set rs \<and>
   (\<forall>x \<in> set body. \<not> is_section_start x)"
proof (induction rs)
  case Nil
  then show ?case by simp
next
  case (Cons r rs)
  show ?case
  proof (cases "(start, body) \<in> set (section_events rs)")
    case True
    from Cons.IH [OF True] show ?thesis by auto
  next
    case False
    with Cons.prems have s: "is_section_start r" "start = r"
      "body = takeWhile (\<lambda>x. \<not> is_section_start x) rs"
      by (auto split: if_splits)
    have sub: "set body \<subseteq> set rs"
      unfolding s(3) by (auto dest: set_takeWhileD)
    have no: "\<forall>x \<in> set body. \<not> is_section_start x"
      unfolding s(3) by (rule takeWhile_no_start)
    from s(1,2) sub no show ?thesis by auto
  qed
qed

lemma section_header_first:
  "section_header body = Some h \<longleftrightarrow>
   (\<exists>i < length body. looksLikeHeader (body ! i) \<and> h = body ! i \<and>
      (\<forall>j < i. \<not> looksLikeHeader (body ! j)))"
  by (simp add: section_header_def find_Some_iff)

lemma section_data_rows_after:
  assumes "i < length body" "looksLikeHeader (body ! i)" "\<forall>j < i. \<not> looksLikeHeader (body ! j)"
  shows "section_data_rows body = filter (\<lambda>x. length x = length (body ! i)) (drop (Suc i) body)"
proof -
  have pre: "\<forall>x \<in> set (take i body). \<not> looksLikeHeader x"
  proof
    fix x assume "x \<in> set (take i body)"
    then obtain j where "j < length (take i body)" "take i body ! j = x"
      by (auto simp: in_set_conv_nth)
    with assms(1,3) show "\<not> looksLikeHeader x" by auto
  qed
  have "dropWhile (\<lambda>x. \<not> looksLikeHeader x) (take i body @ body ! i # drop (Suc i) body)
        = body ! i # drop (Suc i) body"
    using pre assms(2) by (simp add: dropWhile_append)
  moreover have "take i body @ body ! i # drop (Suc i) body = body"
    using assms(1) by (simp add: id_take_nth_drop [symmetric])
  ultimately have "dropWhile (\<lambda>x. \<not> looksLikeHeader x) body = body ! i # drop (Suc i) body"
    by (simp only:)
  then show ?thesis by (simp add: section_data_rows_def)
qed

lemma section_records_keys:
  assumes "ob \<in> set (section_records body)"
  shows "\<exists>h r. section_header body = Some h \<and> r \<in> set (section_data_rows body) \<and>
           length r = length h \<and> ob = positional_record (map clean_header h) r"
proof (cases "section_header body")
  case None
  with assms show ?thesis by (simp add: section_records_def)
next
  case (Some h)
  with assms obtain r where r: "r \<in> set (section_data_rows body)"
    "ob = positional_record (map clean_header h) r"
    by (auto simp: section_records_def)
  from Some obtain i where i: "i < length body" "looksLikeHeader (body ! i)" "h = body ! i"
    "\<forall>j < i. \<not> looksLikeHeader (body ! j)"
    unfolding section_header_first by blast
  from section_data_rows_after [OF i(1,2,4)] i(3) r(1) have "length r = length h" by simp
  with Some r show ?thesis by blast
qed

lemma positional_record_card:
  assumes "length r = length hs" "distinct (derived_keys hs)" "''__proto__'' \<notin> set (derived_keys hs)"
  shows "card (dom (positional_record hs r)) = length hs"
  using assms by (simp add: positional_record_dom distinct_card derived_keys_length)

lemma parseGMRTables_each:
  assumes "parseGMRTables rawData = Inr out"
  shows "\<forall>k < length (tables rawData). gmr_table (tables rawData ! k) = Inr (tables out ! k)"
proof -
  from assms obtain ts where ts: "map_throwing gmr_table (tables rawData) = Inr ts" "tables out = ts"
    by (auto simp: parseGMRTables_def split: sum.splits)
  from map_throwing_map [OF ts(1)] ts(2) show ?thesis by simp
qed

lemma parseGMRTables_frame:
  assumes "parseGMRTables rawData = Inr out"
  shows "env_awb_number out = env_awb_number rawData \<and> service_name out = service_name rawData \<and>
         service_code out = service_code rawData \<and>
         env_extraction_time out = env_extraction_time rawData \<and>
         total_tables out = total_tables rawData"
  using assms by (auto simp: parseGMRTables_def split: sum.splits)

section \<open>The statements of the specification\<close>

text \<open>
  C1. A row of exactly one cell whose text contains \<^verbatim>\<open>DETAILS\<close> is a section start, in
  every state: the current section is emitted if and only if it holds a record, a new
  section titled by the trimmed cell becomes current, and the header is reset. At the
  end of the table the current section is emitted under the same condition. The sections
  a table emits are therefore, in order, the sections of its section-start events whose
  rows, up to the next section start or the end of the table, give at least one record,
  and their number is the number of these events.
\<close>

theorem C1_section_flush:
  "(is_section_start r \<longleftrightarrow> length r = 1 \<and> (\<exists>pre post. r ! 0 = pre @ ''DETAILS'' @ post))
   \<and> (is_section_start r \<longrightarrow>
        allSections (dcsc_row st r) =
          allSections st @ (case currentSection st of
                              Some s \<Rightarrow> if data s \<noteq> [] then [s] else []
                            | None \<Rightarrow> [])
        \<and> (\<exists>s'. currentSection (dcsc_row st r) = Some s' \<and> section_title s' = trim (r ! 0)
               \<and> data s' = [])
        \<and> currentHeaders (dcsc_row st r) = [])
   \<and> flush st = allSections st @ (case currentSection st of
                                    Some s \<Rightarrow> if data s \<noteq> [] then [s] else []
                                  | None \<Rightarrow> [])
   \<and> map fst (section_events (rows t)) = filter is_section_start (rows t)
   \<and> dcsc_table acc t =
       acc @ filter (\<lambda>s. data s \<noteq> []) (map spec_section (section_events (rows t)))
   \<and> length (dcsc_table [] t) =
       length (filter (\<lambda>ev. section_records (snd ev) \<noteq> []) (section_events (rows t)))
   \<and> total_tables (parseDCSCTables rawData) =
       sum_list (map (\<lambda>t. length (filter (\<lambda>ev. section_records (snd ev) \<noteq> [])
                                      (section_events (rows t))))
                     (tables rawData))
   \<and> length (tables (parseDCSCTables rawData)) = total_tables (parseDCSCTables rawData)"
proof (intro conjI)
  show "is_section_start r \<longleftrightarrow> length r = 1 \<and> (\<exists>pre post. r ! 0 = pre @ ''DETAILS'' @ post)"
    by (simp add: is_section_start_def str_includes_iff)
  show "is_section_start r \<longrightarrow>
        allSections (dcsc_row st r) =
          allSections st @ (case currentSection st of
                              Some s \<Rightarrow> if data s \<noteq> [] then [s] else []
                            | None \<Rightarrow> [])
        \<and> (\<exists>s'. currentSection (dcsc_row st r) = Some s' \<and> section_title s' = trim (r ! 0)
               \<and> data s' = [])
        \<and> currentHeaders (dcsc_row st r) = []"
    by (simp add: dcsc_row_start flush_emits)
  show "flush st = allSections st @ (case currentSection st of
                                    Some s \<Rightarrow> if data s \<noteq> [] then [s] else []
                                  | None \<Rightarrow> [])"
    by (rule flush_emits)
  show "map fst (section_events (rows t)) = filter is_section_start (rows t)"
    by (rule section_events_starts)
  show "dcsc_table acc t =
       acc @ filter (\<lambda>s. data s \<noteq> []) (map spec_section (section_events (rows t)))"
    by (rule dcsc_table_sections)
  have d: "(\<lambda>s. data s \<noteq> []) \<circ> spec_section = (\<lambda>ev. section_records (snd ev) \<noteq> [])"
    by (simp add: fun_eq_iff spec_section_def)
  show "length (dcsc_table [] t) =
       length (filter (\<lambda>ev. section_records (snd ev) \<noteq> []) (section_events (rows t)))"
    by (simp add: dcsc_table_sections filter_map d)
  have tot: "total_tables (parseDCSCTables rawData) = length (foldl dcsc_table [] (tables rawData))"
    by (simp add: parseDCSCTables_def Let_def)
  show "total_tables (parseDCSCTables rawData) =
       sum_list (map (\<lambda>t. length (filter (\<lambda>ev. section_records (snd ev) \<noteq> [])
                                      (section_events (rows t))))
                     (tables rawData))"
    unfolding tot foldl_dcsc_table
    by (simp add: length_concat comp_def filter_map d [unfolded comp_def])
  show "length (tables (parseDCSCTables rawData)) = total_tables (parseDCSCTables rawData)"
    by (simp add: parseDCSCTables_def Let_def number_sections_length)
qed

theorem C1_section_flush_witness:
  "dcsc_table [] \<lparr>table_number = 1, table_id = ''t'', total_rows = 5,
       rows = [[''A DETAILS''], [''Date'', ''Status''], [''05-Jan-24'', ''Arrived''],
               [''B DETAILS''], [''x'']]\<rparr>
     = [\<lparr>section_title = ''A DETAILS'', sec_table_id = ''a_details'',
         data = [[''Date'' \<mapsto> ''05-Jan-24'', ''Status'' \<mapsto> ''Arrived'']]\<rparr>]
   \<and> map fst (section_events [[''A DETAILS''], [''Date'', ''Status''], [''05-Jan-24'', ''Arrived''],
                               [''B DETAILS''], [''x'']])
     = [[''A DETAILS''], [''B DETAILS'']]
   \<and> allSections
        (dcsc_row \<lparr>allSections = [],
                   currentSection = Some \<lparr>section_title = ''A DETAILS'', sec_table_id = ''a_details'',
                                           data = [[''k'' \<mapsto> ''v'']]\<rparr>,
                   currentHeaders = [''k'', ''l'']\<rparr> [''B DETAILS''])
       = [\<lparr>section_title = ''A DETAILS'', sec_table_id = ''a_details'', data = [[''k'' \<mapsto> ''v'']]\<rparr>]
   \<and> currentHeaders
        (dcsc_row \<lparr>allSections = [],
                   currentSection = Some \<lparr>section_title = ''A DETAILS'', sec_table_id = ''a_details'',
                                           data = [[''k'' \<mapsto> ''v'']]\<rparr>,
                   currentHeaders = [''k'', ''l'']\<rparr> [''B DETAILS'']) = []"
proof -
  let ?rs = "[[''A DETAILS''], [''Date'', ''Status''], [''05-Jan-24'', ''Arrived''],
              [''B DETAILS''], [''x'']]"
  let ?t = "\<lparr>table_number = 1, table_id = ''t'', total_rows = 5, rows = ?rs\<rparr> :: response_table"
  let ?s = "\<lparr>section_title = ''A DETAILS'', sec_table_id = ''a_details'', data = [[''k'' \<mapsto> ''v'']]\<rparr>"
  let ?st = "\<lparr>allSections = [], currentSection = Some ?s, currentHeaders = [''k'', ''l'']\<rparr>"
  let ?ob = "[''Date'' \<mapsto> ''05-Jan-24'', ''Status'' \<mapsto> ''Arrived'']"
  have rows: "rows ?t = ?rs" by simp
  note c = C1_section_flush [of "[''B DETAILS'']" ?st ?t "[]", unfolded rows]
  note c2 = c [THEN conjunct2, THEN conjunct1]
  note c4 = c [THEN conjunct2, THEN conjunct2, THEN conjunct2, THEN conjunct1]
  note c5 = c [THEN conjunct2, THEN conjunct2, THEN conjunct2, THEN conjunct2, THEN conjunct1]
  have sa: "is_section_start [''A DETAILS'']" and sb: "is_section_start [''B DETAILS'']"
    by (simp_all add: is_section_start_def startsWith_def)
  have n1: "\<not> is_section_start [''Date'', ''Status'']"
    and n2: "\<not> is_section_start [''05-Jan-24'', ''Arrived'']"
    and n3: "\<not> is_section_start [''x'']"
    by (simp_all add: is_section_start_def startsWith_def)
  have ev: "section_events ?rs
      = [([''A DETAILS''], [[''Date'', ''Status''], [''05-Jan-24'', ''Arrived'']]),
         ([''B DETAILS''], [[''x'']])]"
    by (simp add: sa sb n1 n2 n3)
  have h1: "looksLikeHeader [''Date'', ''Status'']"
    by (simp add: looksLikeHeader_def date_regex_def test_prefix_def is_digit_def)
  have h2: "\<not> looksLikeHeader [''x'']"
    by (simp add: looksLikeHeader_def)
  have ch: "clean_header ''Date'' = ''Date''" "clean_header ''Status'' = ''Status''"
    by (simp_all add: clean_header_def trim_def is_space_def)
  have pr: "positional_record [''Date'', ''Status''] [''05-Jan-24'', ''Arrived''] = ?ob"
    by (simp add: positional_record_def derived_keys_def)
  have r1: "section_records [[''Date'', ''Status''], [''05-Jan-24'', ''Arrived'']] = [?ob]"
    by (simp add: section_records_header [OF h1] ch pr)
  have r2: "section_records [[''x'']] = []"
    by (simp add: section_records_skip [OF h2] section_records_Nil)
  have low: "toLowerCase ''A DETAILS'' = ''a details''" "toLowerCase ''B DETAILS'' = ''b details''"
    by code_simp+
  have tr: "trim ''A DETAILS'' = ''A DETAILS''" "trim ''B DETAILS'' = ''B DETAILS''"
    by (simp_all add: trim_def is_space_def)
  have s1: "spec_section ([''A DETAILS''], [[''Date'', ''Status''], [''05-Jan-24'', ''Arrived'']])
      = \<lparr>section_title = ''A DETAILS'', sec_table_id = ''a_details'', data = [?ob]\<rparr>"
    by (simp add: spec_section_def r1 low tr is_space_def)
  have s2: "data (spec_section ([''B DETAILS''], [[''x'']])) = []"
    by (simp add: spec_section_def r2)
  have a: "dcsc_table [] ?t
      = [\<lparr>section_title = ''A DETAILS'', sec_table_id = ''a_details'', data = [?ob]\<rparr>]"
    unfolding c5 ev by (simp add: s1 s2)
  have b: "map fst (section_events ?rs) = [[''A DETAILS''], [''B DETAILS'']]"
    unfolding c4 by (simp add: sa sb n1 n2 n3)
  from c2 [THEN mp, OF sb] have d: "allSections (dcsc_row ?st [''B DETAILS'']) = [?s]"
    and e: "currentHeaders (dcsc_row ?st [''B DETAILS'']) = []"
    by simp_all
  from a b d e show ?thesis by (simp only: simp_thms)
qed

text \<open>
  C2 (amended). While a section is open and has no header yet, a row becomes the header
  exactly when it has more than 1 and fewer than 20 cells, every cell has more than 0 and
  fewer than 50 characters, and no cell begins with two digits, a hyphen, three word
  characters (letters, digits or underscores), a hyphen and two digits. The header keys
  are then the cells, trimmed and with every run of white space collapsed to one space.
  Any other row that is not a section start leaves the whole state as it was.
\<close>

theorem C2_header_candidate:
  "currentSection st = Some s \<and> currentHeaders st = [] \<longrightarrow>
     (currentHeaders (dcsc_row st r) \<noteq> [] \<longleftrightarrow>
        1 < length r \<and> length r < 20 \<and> (\<forall>c \<in> set r. 0 < length c \<and> length c < 50) \<and>
        \<not> (\<exists>c \<in> set r. \<exists>d1 d2 w1 w2 w3 d3 d4 rest.
              c = d1 # d2 # CHR ''-'' # w1 # w2 # w3 # CHR ''-'' # d3 # d4 # rest \<and>
              is_digit d1 \<and> is_digit d2 \<and> is_word w1 \<and> is_word w2 \<and> is_word w3 \<and>
              is_digit d3 \<and> is_digit d4))
     \<and> (currentHeaders (dcsc_row st r) \<noteq> [] \<longrightarrow>
          dcsc_row st r = st\<lparr>currentHeaders := map (\<lambda>h. replace_ws '' '' (trim h)) r\<rparr>)
     \<and> (currentHeaders (dcsc_row st r) = [] \<and> \<not> is_section_start r \<longrightarrow> dcsc_row st r = st)"
proof
  assume a: "currentSection st = Some s \<and> currentHeaders st = []"
  then have step: "dcsc_row st r =
     (if is_section_start r
      then \<lparr>allSections = flush st, currentSection = Some (new_section r), currentHeaders = []\<rparr>
      else if looksLikeHeader r then st\<lparr>currentHeaders := map clean_header r\<rparr>
      else st)"
    using dcsc_row_header by blast
  have ne: "looksLikeHeader r \<Longrightarrow> map clean_header r \<noteq> []"
    by (auto simp: looksLikeHeader_def)
  have ch: "map clean_header r = map (\<lambda>h. replace_ws '' '' (trim h)) r"
    by (simp add: clean_header_def)
  have iff: "currentHeaders (dcsc_row st r) \<noteq> [] \<longleftrightarrow> looksLikeHeader r"
    using a ne looksLikeHeader_not_start [of r] by (auto simp: step)
  show "(currentHeaders (dcsc_row st r) \<noteq> [] \<longleftrightarrow>
        1 < length r \<and> length r < 20 \<and> (\<forall>c \<in> set r. 0 < length c \<and> length c < 50) \<and>
        \<not> (\<exists>c \<in> set r. \<exists>d1 d2 w1 w2 w3 d3 d4 rest.
              c = d1 # d2 # CHR ''-'' # w1 # w2 # w3 # CHR ''-'' # d3 # d4 # rest \<and>
              is_digit d1 \<and> is_digit d2 \<and> is_word w1 \<and> is_word w2 \<and> is_word w3 \<and>
              is_digit d3 \<and> is_digit d4))
     \<and> (currentHeaders (dcsc_row st r) \<noteq> [] \<longrightarrow>
          dcsc_row st r = st\<lparr>currentHeaders := map (\<lambda>h. replace_ws '' '' (trim h)) r\<rparr>)
     \<and> (currentHeaders (dcsc_row st r) = [] \<and> \<not> is_section_start r \<longrightarrow> dcsc_row st r = st)"
  proof (intro conjI)
    show "currentHeaders (dcsc_row st r) \<noteq> [] \<longleftrightarrow>
        1 < length r \<and> length r < 20 \<and> (\<forall>c \<in> set r. 0 < length c \<and> length c < 50) \<and>
        \<not> (\<exists>c \<in> set r. \<exists>d1 d2 w1 w2 w3 d3 d4 rest.
              c = d1 # d2 # CHR ''-'' # w1 # w2 # w3 # CHR ''-'' # d3 # d4 # rest \<and>
              is_digit d1 \<and> is_digit d2 \<and> is_word w1 \<and> is_word w2 \<and> is_word w3 \<and>
              is_digit d3 \<and> is_digit d4)"
      unfolding iff looksLikeHeader_iff date_regex_iff ..
    show "currentHeaders (dcsc_row st r) \<noteq> [] \<longrightarrow>
          dcsc_row st r = st\<lparr>currentHeaders := map (\<lambda>h. replace_ws '' '' (trim h)) r\<rparr>"
      unfolding iff using looksLikeHeader_not_start [of r] by (auto simp: step ch)
    show "currentHeaders (dcsc_row st r) = [] \<and> \<not> is_section_start r \<longrightarrow> dcsc_row st r = st"
      using iff by (auto simp: step)
  qed
qed

theorem C2_header_candidate_witness:
  "dcsc_row \<lparr>allSections = [], currentSection = Some (new_section [''SHIPMENT DETAILS'']),
             currentHeaders = []\<rparr> [''Date '', ''Flight  No'']
     = \<lparr>allSections = [], currentSection = Some (new_section [''SHIPMENT DETAILS'']),
        currentHeaders = [''Date'', ''Flight No'']\<rparr>
   \<and> dcsc_row \<lparr>allSections = [], currentSection = Some (new_section [''SHIPMENT DETAILS'']),
             currentHeaders = []\<rparr> [''05-Jan-24'', ''Arrived'']
     = \<lparr>allSections = [], currentSection = Some (new_section [''SHIPMENT DETAILS'']),
        currentHeaders = []\<rparr>"
proof -
  let ?st = "\<lparr>allSections = [], currentSection = Some (new_section [''SHIPMENT DETAILS'']),
              currentHeaders = []\<rparr>"
  have pre: "currentSection ?st = Some (new_section [''SHIPMENT DETAILS'']) \<and> currentHeaders ?st = []"
    by simp
  note c1 = C2_header_candidate [of ?st "new_section [''SHIPMENT DETAILS'']" "[''Date '', ''Flight  No'']", THEN mp, OF pre]
  note c2 = C2_header_candidate [of ?st "new_section [''SHIPMENT DETAILS'']" "[''05-Jan-24'', ''Arrived'']", THEN mp, OF pre]
  have "currentHeaders (dcsc_row ?st [''Date '', ''Flight  No'']) \<noteq> []"
    using c1 by (auto simp: is_digit_def)
  with c1 have a: "dcsc_row ?st [''Date '', ''Flight  No''] = ?st\<lparr>currentHeaders := [''Date'', ''Flight No'']\<rparr>"
    by (simp add: trim_def is_space_def)
  have w: "is_digit CHR ''0''" "is_digit CHR ''5''" "is_digit CHR ''2''" "is_digit CHR ''4''"
    "is_word CHR ''J''" "is_word CHR ''a''" "is_word CHR ''n''"
    by (simp_all add: is_digit_def is_word_def is_letter_def is_upper_def is_lower_def)
  have "\<exists>c \<in> set [''05-Jan-24'', ''Arrived'']. \<exists>d1 d2 w1 w2 w3 d3 d4 rest.
              c = d1 # d2 # CHR ''-'' # w1 # w2 # w3 # CHR ''-'' # d3 # d4 # rest \<and>
              is_digit d1 \<and> is_digit d2 \<and> is_word w1 \<and> is_word w2 \<and> is_word w3 \<and>
              is_digit d3 \<and> is_digit d4"
    using w by simp
  with c2 have "currentHeaders (dcsc_row ?st [''05-Jan-24'', ''Arrived'']) = []"
    by blast
  moreover have "\<not> is_section_start [''05-Jan-24'', ''Arrived'']"
    by (simp add: is_section_start_def)
  ultimately have b: "dcsc_row ?st [''05-Jan-24'', ''Arrived''] = ?st"
    using c2 by blast
  from a b show ?thesis by simp
qed

theorem C2_spec_header_candidate_counterexample:
  "spec_header_candidate [''12-345-67'', ''Status'']
   \<and> currentHeaders
        (dcsc_row \<lparr>allSections = [], currentSection = Some (new_section [''SHIPMENT DETAILS'']),
                   currentHeaders = []\<rparr> [''12-345-67'', ''Status'']) = []"
  by (simp add: spec_header_candidate_def spec_date_like_def test_prefix_def is_digit_def
      is_letter_def is_upper_def is_lower_def dcsc_row_def is_section_start_def
      looksLikeHeader_def date_regex_def is_word_def)

text \<open>
  C3. In a table of source GMR the header row is the first row with more than one cell and
  every cell shorter than 100 characters, and row 0 when there is none. A table with at
  least one row gives one record for each row after the header row, in order; a record
  holds a key only for a position at which its row has a cell, with that cell as the value
  (the last one, where a header name occurs twice), so that the header names beyond the
  end of a shorter row are missing from it.
\<close>

theorem C3_header_inference:
  "((\<exists>i < length (rows t). is_header_row (rows t ! i)) \<longrightarrow>
      headerRowIndex (rows t) < length (rows t) \<and>
      is_header_row (rows t ! headerRowIndex (rows t)) \<and>
      (\<forall>j < headerRowIndex (rows t). \<not> is_header_row (rows t ! j)))
   \<and> ((\<forall>i < length (rows t). \<not> is_header_row (rows t ! i)) \<longrightarrow> headerRowIndex (rows t) = 0)
   \<and> (\<forall>x. is_header_row x \<longleftrightarrow> length x > 1 \<and> (\<forall>c \<in> set x. length c < 100))
   \<and> (rows t \<noteq> [] \<longrightarrow>
        (\<exists>out. gmr_table t = Inr out
           \<and> length (out_data out) = length (rows t) - (headerRowIndex (rows t) + 1)
           \<and> out_total_rows out = length (out_data out)
           \<and> (\<forall>k < length (out_data out).
                out_data out ! k =
                  gmr_obj (map clean_header (rows t ! headerRowIndex (rows t))) 0
                    (rows t ! (headerRowIndex (rows t) + 1 + k)) Map.empty)))
   \<and> (\<forall>key v. gmr_obj hs 0 r Map.empty key = Some v \<longrightarrow>
         (\<exists>i < length hs. i < length r \<and> hs ! i = key \<and> v = r ! i))
   \<and> (\<forall>i < length hs. i < length r \<and> hs ! i \<noteq> [] \<and> hs ! i \<noteq> ''__proto__'' \<and>
         (\<forall>j < length hs. j < length r \<and> hs ! j = hs ! i \<longrightarrow> j \<le> i) \<longrightarrow>
         gmr_obj hs 0 r Map.empty (hs ! i) = Some (r ! i))
   \<and> (\<forall>i < length hs. length r \<le> i \<and> hs ! i \<notin> set (take (length r) hs) \<longrightarrow>
         hs ! i \<notin> dom (gmr_obj hs 0 r Map.empty))"
proof (intro conjI)
  show "(\<exists>i < length (rows t). is_header_row (rows t ! i)) \<longrightarrow>
      headerRowIndex (rows t) < length (rows t) \<and>
      is_header_row (rows t ! headerRowIndex (rows t)) \<and>
      (\<forall>j < headerRowIndex (rows t). \<not> is_header_row (rows t ! j))"
    using headerRowIndex_first by blast
  show "(\<forall>i < length (rows t). \<not> is_header_row (rows t ! i)) \<longrightarrow> headerRowIndex (rows t) = 0"
    using headerRowIndex_default by blast
  show "\<forall>x. is_header_row x \<longleftrightarrow> length x > 1 \<and> (\<forall>c \<in> set x. length c < 100)"
    by (simp add: is_header_row_def list_all_iff)
  show "rows t \<noteq> [] \<longrightarrow>
        (\<exists>out. gmr_table t = Inr out
           \<and> length (out_data out) = length (rows t) - (headerRowIndex (rows t) + 1)
           \<and> out_total_rows out = length (out_data out)
           \<and> (\<forall>k < length (out_data out).
                out_data out ! k =
                  gmr_obj (map clean_header (rows t ! headerRowIndex (rows t))) 0
                    (rows t ! (headerRowIndex (rows t) + 1 + k)) Map.empty))"
  proof
    assume "rows t \<noteq> []"
    from gmr_table_ok [OF this] show "\<exists>out. gmr_table t = Inr out
           \<and> length (out_data out) = length (rows t) - (headerRowIndex (rows t) + 1)
           \<and> out_total_rows out = length (out_data out)
           \<and> (\<forall>k < length (out_data out).
                out_data out ! k =
                  gmr_obj (map clean_header (rows t ! headerRowIndex (rows t))) 0
                    (rows t ! (headerRowIndex (rows t) + 1 + k)) Map.empty)"
      by simp
  qed
  show "\<forall>key v. gmr_obj hs 0 r Map.empty key = Some v \<longrightarrow>
         (\<exists>i < length hs. i < length r \<and> hs ! i = key \<and> v = r ! i)"
    using gmr_obj_lookup [of hs 0 r Map.empty] by simp
  show "\<forall>i < length hs. i < length r \<and> hs ! i \<noteq> [] \<and> hs ! i \<noteq> ''__proto__'' \<and>
         (\<forall>j < length hs. j < length r \<and> hs ! j = hs ! i \<longrightarrow> j \<le> i) \<longrightarrow>
         gmr_obj hs 0 r Map.empty (hs ! i) = Some (r ! i)"
    using gmr_obj_last_wins [of _ hs 0 r Map.empty] by simp
  show "\<forall>i < length hs. length r \<le> i \<and> hs ! i \<notin> set (take (length r) hs) \<longrightarrow>
         hs ! i \<notin> dom (gmr_obj hs 0 r Map.empty)"
  proof (intro allI impI notI)
    fix i assume a: "i < length hs" "length r \<le> i \<and> hs ! i \<notin> set (take (length r) hs)"
      and d: "hs ! i \<in> dom (gmr_obj hs 0 r Map.empty)"
    from d obtain k where k: "hs ! i = hs ! k" "k < length hs" "k < length r"
      by (auto simp: gmr_obj_dom)
    then have "hs ! k = take (length r) hs ! k" "k < length (take (length r) hs)" by simp_all
    then have "hs ! k \<in> set (take (length r) hs)" by (metis nth_mem)
    with a k show False by simp
  qed
qed

theorem C3_header_inference_witness:
  "headerRowIndex (rows \<lparr>table_number = 1, table_id = ''grd1'', total_rows = 3,
                         rows = [[''A'', ''B''], [''1'', ''2''], [''3'']]\<rparr>) = 0
   \<and> (\<exists>out. gmr_table \<lparr>table_number = 1, table_id = ''grd1'', total_rows = 3,
                         rows = [[''A'', ''B''], [''1'', ''2''], [''3'']]\<rparr> = Inr out
          \<and> length (out_data out) = 2
          \<and> out_data out ! 0 = [''A'' \<mapsto> ''1'', ''B'' \<mapsto> ''2'']
          \<and> out_data out ! 1 = [''A'' \<mapsto> ''3''])
   \<and> gmr_obj [''A'', ''B''] 0 [''3''] Map.empty ''A'' = Some ''3''
   \<and> ''B'' \<notin> dom (gmr_obj [''A'', ''B''] 0 [''3''] Map.empty)"
proof -
  let ?rs = "[[''A'', ''B''], [''1'', ''2''], [''3'']]"
  let ?t = "\<lparr>table_number = 1, table_id = ''grd1'', total_rows = 3, rows = ?rs\<rparr> :: response_table"
  have rows: "rows ?t = ?rs" by simp
  note c = C3_header_inference [of ?t "[''A'', ''B'']" "[''3'']", unfolded rows]
  note c1 = c [THEN conjunct1]
  note c4 = c [THEN conjunct2, THEN conjunct2, THEN conjunct2, THEN conjunct1]
  note c6 = c [THEN conjunct2, THEN conjunct2, THEN conjunct2, THEN conjunct2, THEN conjunct2,
                THEN conjunct1]
  note c7 = c [THEN conjunct2, THEN conjunct2, THEN conjunct2, THEN conjunct2, THEN conjunct2,
                THEN conjunct2]
  have q: "is_header_row (?rs ! 0)" by (simp add: is_header_row_def)
  then have "\<exists>i < length ?rs. is_header_row (?rs ! i)" by auto
  with c1 have "\<forall>j < headerRowIndex ?rs. \<not> is_header_row (?rs ! j)" by (rule mp [THEN conjunct2, THEN conjunct2])
  with q have h0: "headerRowIndex ?rs = 0" by (metis not_gr_zero)
  have "?rs \<noteq> []" by simp
  with c4 have "\<exists>out. gmr_table ?t = Inr out
           \<and> length (out_data out) = length ?rs - (headerRowIndex ?rs + 1)
           \<and> out_total_rows out = length (out_data out)
           \<and> (\<forall>k < length (out_data out).
                out_data out ! k =
                  gmr_obj (map clean_header (?rs ! headerRowIndex ?rs)) 0
                    (?rs ! (headerRowIndex ?rs + 1 + k)) Map.empty)" by (rule mp)
  then obtain out where out: "gmr_table ?t = Inr out"
    "length (out_data out) = length ?rs - (headerRowIndex ?rs + 1)"
    "\<forall>k < length (out_data out). out_data out ! k =
        gmr_obj (map clean_header (?rs ! headerRowIndex ?rs)) 0
          (?rs ! (headerRowIndex ?rs + 1 + k)) Map.empty"
    by blast
  have ch: "map clean_header [''A'', ''B''] = [''A'', ''B'']"
    by (simp add: clean_header_def trim_def is_space_def)
  from out(2) have len: "length (out_data out) = 2" unfolding h0 by simp
  from out(3) [unfolded h0 len, rule_format, of 0] ch
  have r0: "out_data out ! 0 = [''A'' \<mapsto> ''1'', ''B'' \<mapsto> ''2'']"
    by (simp add: obj_set_def)
  from out(3) [unfolded h0 len, rule_format, of 1] ch
  have r1: "out_data out ! 1 = [''A'' \<mapsto> ''3'']"
    by (simp add: obj_set_def)
  from c6 [rule_format, of 0] have a: "gmr_obj [''A'', ''B''] 0 [''3''] Map.empty ''A'' = Some ''3''"
    by simp
  from c7 [rule_format, of 1] have b: "''B'' \<notin> dom (gmr_obj [''A'', ''B''] 0 [''3''] Map.empty)"
    by simp
  from h0 out(1) len r0 r1 a b show ?thesis unfolding rows by blast
qed

text \<open>
  C4 (amended). The sections the Section Normalizer emits for a table are the sections
  of its section-start events that hold a record. Every record of such a section has as
  its key set the derived keys of the header row of that section, the first header
  candidate among the section's rows: the cleaned header name, or the placeholder
  \<^verbatim>\<open>Column <1-based index>\<close> for an empty name, without the key \<^verbatim>\<open>__proto__\<close>, which
  is never set. The number of keys is the header row's cell count when the derived keys
  are distinct and none is \<^verbatim>\<open>__proto__\<close>. A record of the Header-Inference Normalizer has
  as its key set the header names at the positions where its data row has a cell, without
  the empty names and the name \<^verbatim>\<open>__proto__\<close>: a subset of the header's derived keys. It is
  the whole set when the data row is at least as long as the header row and no header
  name is empty or \<^verbatim>\<open>__proto__\<close>, and then the number of keys is the header row's cell
  count when the names are distinct.
\<close>

theorem C4_record_keys:
  "dcsc_table [] t = filter (\<lambda>s. data s \<noteq> []) (map spec_section (section_events (rows t)))
   \<and> (\<forall>ob \<in> set (data (spec_section (start, body))).
        \<exists>hrow. section_header body = Some hrow \<and>
          dom ob = set (derived_keys (map clean_header hrow)) - {''__proto__''} \<and>
          (distinct (derived_keys (map clean_header hrow)) \<and>
           ''__proto__'' \<notin> set (derived_keys (map clean_header hrow)) \<longrightarrow>
             card (dom ob) = length hrow))
   \<and> (section_header body = Some h \<longleftrightarrow>
        (\<exists>i < length body. looksLikeHeader (body ! i) \<and> h = body ! i \<and>
           (\<forall>j < i. \<not> looksLikeHeader (body ! j))))
   \<and> (rows t \<noteq> [] \<longrightarrow>
        (\<exists>out. gmr_table t = Inr out \<and>
           (\<forall>k < length (out_data out).
              out_data out ! k =
                gmr_obj (map clean_header (rows t ! headerRowIndex (rows t))) 0
                  (rows t ! (headerRowIndex (rows t) + 1 + k)) Map.empty)))
   \<and> dom (gmr_obj hs 0 r Map.empty) =
       {hs ! i | i. i < length hs \<and> i < length r \<and> hs ! i \<noteq> [] \<and> hs ! i \<noteq> ''__proto__''}
   \<and> dom (gmr_obj hs 0 r Map.empty) \<subseteq> set (derived_keys hs)
   \<and> (length hs \<le> length r \<and> [] \<notin> set hs \<and> ''__proto__'' \<notin> set hs \<longrightarrow>
        dom (gmr_obj hs 0 r Map.empty) = set (derived_keys hs) \<and>
        (distinct hs \<longrightarrow> card (dom (gmr_obj hs 0 r Map.empty)) = length hs))"
proof (intro conjI)
  show "dcsc_table [] t = filter (\<lambda>s. data s \<noteq> []) (map spec_section (section_events (rows t)))"
    by (simp add: dcsc_table_sections)
  show "\<forall>ob \<in> set (data (spec_section (start, body))).
        \<exists>hrow. section_header body = Some hrow \<and>
          dom ob = set (derived_keys (map clean_header hrow)) - {''__proto__''} \<and>
          (distinct (derived_keys (map clean_header hrow)) \<and>
           ''__proto__'' \<notin> set (derived_keys (map clean_header hrow)) \<longrightarrow>
             card (dom ob) = length hrow)"
  proof
    fix ob assume "ob \<in> set (data (spec_section (start, body)))"
    then have "ob \<in> set (section_records body)" by (simp add: spec_section_def)
    from section_records_keys [OF this]
    obtain hrow x where h: "section_header body = Some hrow" "length x = length hrow"
      "ob = positional_record (map clean_header hrow) x"
      by blast
    from h(2) have len: "length x = length (map clean_header hrow)" by simp
    have "dom ob = set (derived_keys (map clean_header hrow)) - {''__proto__''}"
      unfolding h(3) using len by (rule positional_record_dom)
    moreover have "distinct (derived_keys (map clean_header hrow)) \<and>
           ''__proto__'' \<notin> set (derived_keys (map clean_header hrow)) \<longrightarrow>
             card (dom ob) = length hrow"
      unfolding h(3) using positional_record_card [OF len] by simp
    ultimately show "\<exists>hrow. section_header body = Some hrow \<and>
          dom ob = set (derived_keys (map clean_header hrow)) - {''__proto__''} \<and>
          (distinct (derived_keys (map clean_header hrow)) \<and>
           ''__proto__'' \<notin> set (derived_keys (map clean_header hrow)) \<longrightarrow>
             card (dom ob) = length hrow)"
      using h(1) by blast
  qed
  show "section_header body = Some h \<longleftrightarrow>
        (\<exists>i < length body. looksLikeHeader (body ! i) \<and> h = body ! i \<and>
           (\<forall>j < i. \<not> looksLikeHeader (body ! j)))"
    by (rule section_header_first)
  show "rows t \<noteq> [] \<longrightarrow>
        (\<exists>out. gmr_table t = Inr out \<and>
           (\<forall>k < length (out_data out).
              out_data out ! k =
                gmr_obj (map clean_header (rows t ! headerRowIndex (rows t))) 0
                  (rows t ! (headerRowIndex (rows t) + 1 + k)) Map.empty))"
    by (simp add: gmr_table_ok)
  show "dom (gmr_obj hs 0 r Map.empty) =
       {hs ! i | i. i < length hs \<and> i < length r \<and> hs ! i \<noteq> [] \<and> hs ! i \<noteq> ''__proto__''}"
    by (simp add: gmr_obj_dom)
  show "dom (gmr_obj hs 0 r Map.empty) \<subseteq> set (derived_keys hs)"
    by (rule gmr_obj_keys_subset)
  show "length hs \<le> length r \<and> [] \<notin> set hs \<and> ''__proto__'' \<notin> set hs \<longrightarrow>
        dom (gmr_obj hs 0 r Map.empty) = set (derived_keys hs) \<and>
        (distinct hs \<longrightarrow> card (dom (gmr_obj hs 0 r Map.empty)) = length hs)"
    by (simp add: gmr_obj_keys_full derived_keys_named distinct_card)
qed

theorem C4_record_keys_witness:
  "dcsc_table [] \<lparr>table_number = 1, table_id = ''t'', total_rows = 3,
       rows = [[''A DETAILS''], [''Date'', ''Status''], [''05-Jan-24'', ''Arrived'']]\<rparr>
     = [\<lparr>section_title = ''A DETAILS'', sec_table_id = ''a_details'',
         data = [[''Date'' \<mapsto> ''05-Jan-24'', ''Status'' \<mapsto> ''Arrived'']]\<rparr>]
   \<and> data (spec_section ([''A DETAILS''], [[''Date'', ''Status''], [''05-Jan-24'', ''Arrived'']]))
     = [[''Date'' \<mapsto> ''05-Jan-24'', ''Status'' \<mapsto> ''Arrived'']]
   \<and> section_header [[''Date'', ''Status''], [''05-Jan-24'', ''Arrived'']] = Some [''Date'', ''Status'']
   \<and> dom [''Date'' \<mapsto> ''05-Jan-24'', ''Status'' \<mapsto> ''Arrived'']
     = set (derived_keys (map clean_header [''Date'', ''Status''])) - {''__proto__''}
   \<and> card (dom (gmr_obj [''A'', ''B''] 0 [''1'', ''2''] Map.empty)) = 2"
proof -
  let ?body = "[[''Date'', ''Status''], [''05-Jan-24'', ''Arrived'']]"
  let ?rs = "[[''A DETAILS''], [''Date'', ''Status''], [''05-Jan-24'', ''Arrived'']]"
  let ?t = "\<lparr>table_number = 1, table_id = ''t'', total_rows = 3, rows = ?rs\<rparr> :: response_table"
  let ?ob = "[''Date'' \<mapsto> ''05-Jan-24'', ''Status'' \<mapsto> ''Arrived'']"
  note c = C4_record_keys [of ?t "[''A DETAILS'']" ?body "[''Date'', ''Status'']"
      "[''A'', ''B'']" "[''1'', ''2'']"]
  note c2 = c [THEN conjunct2, THEN conjunct1]
  note c7 = c [THEN conjunct2, THEN conjunct2, THEN conjunct2, THEN conjunct2, THEN conjunct2,
      THEN conjunct2]
  have e: "dcsc_table [] ?t
     = [\<lparr>section_title = ''A DETAILS'', sec_table_id = ''a_details'', data = [?ob]\<rparr>]"
    by (rule scenario2_sections)
  have h1: "looksLikeHeader [''Date'', ''Status'']"
    by (simp add: looksLikeHeader_def date_regex_def test_prefix_def is_digit_def)
  have ch: "clean_header ''Date'' = ''Date''" "clean_header ''Status'' = ''Status''"
    by (simp_all add: clean_header_def trim_def is_space_def)
  have pr: "positional_record [''Date'', ''Status''] [''05-Jan-24'', ''Arrived''] = ?ob"
    by (simp add: positional_record_def derived_keys_def)
  have d: "data (spec_section ([''A DETAILS''], ?body)) = [?ob]"
    by (simp add: spec_section_def section_records_header [OF h1] ch pr)
  have sh: "section_header ?body = Some [''Date'', ''Status'']"
    by (simp add: section_header_def h1)
  have "?ob \<in> set (data (spec_section ([''A DETAILS''], ?body)))"
    unfolding d by simp
  from c2 [THEN bspec, OF this]
  obtain hrow where h: "section_header ?body = Some hrow"
    "dom ?ob = set (derived_keys (map clean_header hrow)) - {''__proto__''}"
    by (elim exE conjE)
  from h(1) sh have "hrow = [''Date'', ''Status'']" by simp
  with h(2) have k: "dom ?ob = set (derived_keys (map clean_header [''Date'', ''Status''])) - {''__proto__''}"
    by (simp only:)
  have "length [''A'', ''B''] \<le> length [''1'', ''2''] \<and> [] \<notin> set [''A'', ''B'']
        \<and> ''__proto__'' \<notin> set [''A'', ''B'']" by simp
  from c7 [THEN mp, OF this]
  have "distinct [''A'', ''B''] \<longrightarrow> card (dom (gmr_obj [''A'', ''B''] 0 [''1'', ''2''] Map.empty)) = length [''A'', ''B'']"
    by (rule conjunct2)
  moreover have "distinct [''A'', ''B'']" by simp
  ultimately have "card (dom (gmr_obj [''A'', ''B''] 0 [''1'', ''2''] Map.empty)) = length [''A'', ''B'']"
    by (rule mp)
  then have b: "card (dom (gmr_obj [''A'', ''B''] 0 [''1'', ''2''] Map.empty)) = 2"
    by simp
  from e d sh k b show ?thesis by (simp only: simp_thms)
qed

theorem C4_key_set_counterexample:
  "gmr_table \<lparr>table_number = 1, table_id = ''grd1'', total_rows = 2,
              rows = [[''A'', ''B''], [''1'']]\<rparr>
     = Inr \<lparr>out_table_id = ''grd1'', out_table_number = 1, out_section_title = None,
            out_data = [[''A'' \<mapsto> ''1'']], out_total_rows = 1\<rparr>
   \<and> derived_keys (map clean_header [''A'', ''B'']) = [''A'', ''B'']
   \<and> dom [''A'' \<mapsto> ''1''] \<noteq> set [''A'', ''B'']
   \<and> card (dom [''A'' \<mapsto> ''1'']) \<noteq> length [''A'', ''B'']
   \<and> dcsc_obj (map clean_header [''Date'', ''Date'']) 0 [''1'', ''2''] Map.empty = [''Date'' \<mapsto> ''2'']
   \<and> card (dom [''Date'' \<mapsto> ''2'']) \<noteq> length [''Date'', ''Date'']
   \<and> dcsc_obj [''__proto__'', ''B''] 0 [''1'', ''2''] Map.empty = [''B'' \<mapsto> ''2'']
   \<and> gmr_obj [''__proto__'', ''B''] 0 [''1'', ''2''] Map.empty = [''B'' \<mapsto> ''2'']
   \<and> dom [''B'' \<mapsto> ''2''] \<noteq> set (derived_keys [''__proto__'', ''B''])
   \<and> gmr_obj ['''', ''B''] 0 [''1'', ''2''] Map.empty = [''B'' \<mapsto> ''2'']
   \<and> derived_keys ['''', ''B''] = [''Column 1'', ''B'']
   \<and> dom [''B'' \<mapsto> ''2''] \<noteq> set [''Column 1'', ''B'']"
proof -
  have ch: "clean_header ''A'' = ''A''" "clean_header ''B'' = ''B''"
    "clean_header ''Date'' = ''Date''"
    by (simp_all add: clean_header_def trim_def is_space_def)
  have hr: "headerRowIndex [[''A'', ''B''], [''1'']] = 0"
    by (simp add: headerRowIndex_def header_scan.simps is_header_row_def)
  have one: "string_of_nat (Suc 0) = ''1''" by code_simp
  have a: "gmr_table \<lparr>table_number = 1, table_id = ''grd1'', total_rows = 2,
              rows = [[''A'', ''B''], [''1'']]\<rparr>
     = Inr \<lparr>out_table_id = ''grd1'', out_table_number = 1, out_section_title = None,
            out_data = [[''A'' \<mapsto> ''1'']], out_total_rows = 1\<rparr>"
    by (simp add: gmr_table_def hr ch obj_set_def)
  have b: "derived_keys (map clean_header [''A'', ''B'']) = [''A'', ''B'']"
    by (simp add: ch derived_keys_def)
  have c: "dom [''A'' \<mapsto> ''1''] \<noteq> set [''A'', ''B'']" by auto
  have d: "card (dom [''A'' \<mapsto> ''1'']) \<noteq> length [''A'', ''B'']" by simp
  have e: "dcsc_obj (map clean_header [''Date'', ''Date'']) 0 [''1'', ''2''] Map.empty = [''Date'' \<mapsto> ''2'']"
    by (simp add: ch obj_set_def)
  have f: "card (dom [''Date'' \<mapsto> ''2'']) \<noteq> length [''Date'', ''Date'']" by simp
  have g: "dcsc_obj [''__proto__'', ''B''] 0 [''1'', ''2''] Map.empty = [''B'' \<mapsto> ''2'']"
    by (simp add: obj_set_def)
  have h: "gmr_obj [''__proto__'', ''B''] 0 [''1'', ''2''] Map.empty = [''B'' \<mapsto> ''2'']"
    by (simp add: obj_set_def)
  have i: "dom [''B'' \<mapsto> ''2''] \<noteq> set (derived_keys [''__proto__'', ''B''])"
    by (auto simp: derived_keys_def)
  have j: "gmr_obj ['''', ''B''] 0 [''1'', ''2''] Map.empty = [''B'' \<mapsto> ''2'']"
    by (simp add: obj_set_def)
  have k: "derived_keys ['''', ''B''] = [''Column 1'', ''B'']"
    by (simp add: derived_keys_def one)
  have l: "dom [''B'' \<mapsto> ''2''] \<noteq> set [''Column 1'', ''B'']" by auto
  from a b c d e f g h i j k l show ?thesis by (simp only: simp_thms)
qed

text \<open>
  C5. In every table the Grid Extractor returns there is at least one row, every row has at
  least one cell, and no cell has an empty trimmed text.
\<close>

theorem C5_extracted_grid_nonempty:
  "\<forall>t \<in> set (all_tables (parseHTML awb opt now doc)).
     rows t \<noteq> [] \<and>
     (\<forall>r \<in> set (rows t). cells r \<noteq> [] \<and> (\<forall>c \<in> set (cells r). trim (text c) \<noteq> []))"
  using parseHTML_tables_ok [of awb opt now doc]
  by (auto simp: list_all_iff table_ok_def row_ok_def cell_ok_def)

theorem C5_extracted_grid_nonempty_witness:
  "all_tables (parseHTML ''057'' ''2'' ''t0''
       [\<lparr>attr_id = Some ''grd1'',
         trs = [[\<lparr>cell_name = ''th'', cell_text = '' A ''\<rparr>, \<lparr>cell_name = ''td'', cell_text = '' ''\<rparr>],
                [\<lparr>cell_name = ''td'', cell_text = ''''\<rparr>]]\<rparr>,
        \<lparr>attr_id = None, trs = []\<rparr>])
     = [\<lparr>table_number = 0, table_id = ''grd1'', total_rows = 1,
         rows = [\<lparr>row_number = 0, cells = [\<lparr>text = ''A'', isHeader = True\<rparr>]\<rparr>]\<rparr>]
   \<and> trim (text \<lparr>text = ''A'', isHeader = True\<rparr>) \<noteq> []"
proof -
  let ?doc = "[\<lparr>attr_id = Some ''grd1'',
         trs = [[\<lparr>cell_name = ''th'', cell_text = '' A ''\<rparr>, \<lparr>cell_name = ''td'', cell_text = '' ''\<rparr>],
                [\<lparr>cell_name = ''td'', cell_text = ''''\<rparr>]]\<rparr>,
        \<lparr>attr_id = None, trs = []\<rparr>]"
  have e: "all_tables (parseHTML ''057'' ''2'' ''t0'' ?doc)
     = [\<lparr>table_number = 0, table_id = ''grd1'', total_rows = 1,
         rows = [\<lparr>row_number = 0, cells = [\<lparr>text = ''A'', isHeader = True\<rparr>]\<rparr>]\<rparr>]"
    by (simp add: parseHTML_def trim_def is_space_def)
  from C5_extracted_grid_nonempty [of "''057''" "''2''" "''t0''" ?doc]
  have "trim (text \<lparr>text = ''A'', isHeader = True\<rparr>) \<noteq> []"
    unfolding e by simp
  with e show ?thesis by (simp only: simp_thms)
qed

text \<open>
  C6 (amended). No source identifier makes the classification fail. The server maps the
  service \<^verbatim>\<open>gmr\<close> to option 2 and every other service to option 1, so that a run for an
  unknown service is the run for source DCSC. \<open>parseTableData\<close> dispatches service code 1
  to the normalizer of DCSC and 2 to that of GMR, and returns the response unchanged for
  any other code.
\<close>

theorem C6_classification:
  "(serviceOption svc = ''2'' \<longleftrightarrow> svc = ''gmr'')
   \<and> (svc \<noteq> ''gmr'' \<longrightarrow> serviceOption svc = ''1'')
   \<and> (svc \<noteq> ''gmr'' \<longrightarrow> run svc awb doc n1 n2 = run ''dcsc'' awb doc n1 n2)
   \<and> (service_code rawData = ''1'' \<longrightarrow>
        parseTableData rawData = Inr (Normalized (parseDCSCTables rawData)))
   \<and> (service_code rawData = ''2'' \<longrightarrow>
        parseTableData rawData = map_sum id Normalized (parseGMRTables rawData))
   \<and> (service_code rawData \<noteq> ''1'' \<and> service_code rawData \<noteq> ''2'' \<longrightarrow>
        parseTableData rawData = Inr (Unparsed rawData))"
proof (intro conjI)
  show "serviceOption svc = ''2'' \<longleftrightarrow> svc = ''gmr''"
    by (simp add: serviceOption_def)
  show "svc \<noteq> ''gmr'' \<longrightarrow> serviceOption svc = ''1''"
    by (simp add: serviceOption_def)
  show "svc \<noteq> ''gmr'' \<longrightarrow> run svc awb doc n1 n2 = run ''dcsc'' awb doc n1 n2"
    using run_other_service by blast
  show "service_code rawData = ''1'' \<longrightarrow>
        parseTableData rawData = Inr (Normalized (parseDCSCTables rawData))"
    by (simp add: parseTableData_def)
  show "service_code rawData = ''2'' \<longrightarrow>
        parseTableData rawData = map_sum id Normalized (parseGMRTables rawData)"
    by (simp add: parseTableData_def split: sum.splits)
  show "service_code rawData \<noteq> ''1'' \<and> service_code rawData \<noteq> ''2'' \<longrightarrow>
        parseTableData rawData = Inr (Unparsed rawData)"
    by (simp add: parseTableData_def)
qed

theorem C6_classification_witness:
  "serviceOption ''C'' = ''1''
   \<and> run ''C'' ''057'' [] ''t0'' ''t1'' = run ''dcsc'' ''057'' [] ''t0'' ''t1''
   \<and> parseTableData \<lparr>env_awb_number = ''057'', service_name = None, service_code = ''C'',
                      env_extraction_time = ''t1'', total_tables = 1,
                      tables = [\<lparr>table_number = 1, table_id = ''grd1'', total_rows = 1,
                                 rows = [[''A'', ''B'']]\<rparr>]\<rparr>
     = Inr (Unparsed \<lparr>env_awb_number = ''057'', service_name = None, service_code = ''C'',
                      env_extraction_time = ''t1'', total_tables = 1,
                      tables = [\<lparr>table_number = 1, table_id = ''grd1'', total_rows = 1,
                                 rows = [[''A'', ''B'']]\<rparr>]\<rparr>)
   \<and> parseTableData \<lparr>env_awb_number = ''057'', service_name = None, service_code = ''1'',
                      env_extraction_time = ''t1'', total_tables = 0, tables = []\<rparr>
     = Inr (Normalized (parseDCSCTables
            \<lparr>env_awb_number = ''057'', service_name = None, service_code = ''1'',
             env_extraction_time = ''t1'', total_tables = 0, tables = []\<rparr>))
   \<and> parseTableData \<lparr>env_awb_number = ''057'', service_name = None, service_code = ''2'',
                      env_extraction_time = ''t1'', total_tables = 0, tables = []\<rparr>
     = map_sum id Normalized (parseGMRTables
            \<lparr>env_awb_number = ''057'', service_name = None, service_code = ''2'',
             env_extraction_time = ''t1'', total_tables = 0, tables = []\<rparr>)"
proof -
  let ?rawC = "\<lparr>env_awb_number = ''057'', service_name = None, service_code = ''C'',
                env_extraction_time = ''t1'', total_tables = 1,
                tables = [\<lparr>table_number = 1, table_id = ''grd1'', total_rows = 1,
                           rows = [[''A'', ''B'']]\<rparr>]\<rparr> :: response_table envelope"
  let ?raw1 = "\<lparr>env_awb_number = ''057'', service_name = None, service_code = ''1'',
                env_extraction_time = ''t1'', total_tables = 0, tables = []\<rparr> :: response_table envelope"
  let ?raw2 = "\<lparr>env_awb_number = ''057'', service_name = None, service_code = ''2'',
                env_extraction_time = ''t1'', total_tables = 0, tables = []\<rparr> :: response_table envelope"
  have ne: "''C'' \<noteq> ''gmr''" by simp
  note c = C6_classification [of "''C''" "''057''" "[]" "''t0''" "''t1''" ?rawC]
  from c [THEN conjunct2, THEN conjunct1, THEN mp, OF ne]
  have a: "serviceOption ''C'' = ''1''" .
  from c [THEN conjunct2, THEN conjunct2, THEN conjunct1, THEN mp, OF ne]
  have b: "run ''C'' ''057'' [] ''t0'' ''t1'' = run ''dcsc'' ''057'' [] ''t0'' ''t1''" .
  have "service_code ?rawC \<noteq> ''1'' \<and> service_code ?rawC \<noteq> ''2''" by simp
  from c [THEN conjunct2, THEN conjunct2, THEN conjunct2, THEN conjunct2, THEN conjunct2, THEN mp, OF this]
  have d: "parseTableData ?rawC = Inr (Unparsed ?rawC)" .
  have "service_code ?raw1 = ''1''" by simp
  from C6_classification [of "''C''" "''057''" "[]" "''t0''" "''t1''" ?raw1,
      THEN conjunct2, THEN conjunct2, THEN conjunct2, THEN conjunct1, THEN mp, OF this]
  have e: "parseTableData ?raw1 = Inr (Normalized (parseDCSCTables ?raw1))" .
  have "service_code ?raw2 = ''2''" by simp
  from C6_classification [of "''C''" "''057''" "[]" "''t0''" "''t1''" ?raw2,
      THEN conjunct2, THEN conjunct2, THEN conjunct2, THEN conjunct2, THEN conjunct1, THEN mp, OF this]
  have f: "parseTableData ?raw2 = map_sum id Normalized (parseGMRTables ?raw2)" .
  from a b d e f show ?thesis by (simp only: simp_thms)
qed

theorem C6_unknown_source_counterexample:
  "\<not> isl (parseTableData \<lparr>env_awb_number = ''057'', service_name = None, service_code = ''C'',
                           env_extraction_time = ''t1'', total_tables = 0, tables = []\<rparr>)
   \<and> \<not> isl (run ''C'' ''057'' [] ''t0'' ''t1'')
   \<and> run ''C'' ''057'' [] ''t0'' ''t1''
       = Inr (Normalized \<lparr>env_awb_number = ''057'',
                          service_name = Some ''DCSC - Delhi Cargo Service Centre'',
                          service_code = ''1'', env_extraction_time = ''t1'',
                          total_tables = 0, tables = []\<rparr>)"
  by (simp add: parseTableData_def run_def serviceOption_def parseHTML_def responseData_def
      usefulTables_def serviceOptions_def parseDCSCTables_def trim_def is_space_def Let_def)

text \<open>
  C8 (amended). The output envelope carries the server's reading of the clock as
  \<open>extraction_time\<close>; for a fixed service, number and document, two runs return envelopes
  that are equal once their extraction times are set to the same value, and equal
  outright when the server reads the same time. The scraper's own reading of the clock
  does not reach the envelope.
\<close>

theorem C8_determinism_up_to_time:
  "map_sum id (set_time t) (run svc awb doc n1 n2) = map_sum id (set_time t) (run svc awb doc m1 m2)
   \<and> run svc awb doc n1 n2 = run svc awb doc m1 n2
   \<and> (\<exists>p. run svc awb doc n1 n2 = Inr p \<and> time_of p = n2)"
proof (intro conjI)
  have "map_sum id (set_time t) (run svc awb doc n1 n2)
        = map_sum id (set_time t) (map_sum id (set_time n2) (run svc awb doc m1 m2))"
    by (simp only: run_as_set_time [of svc awb doc n1 n2 m1 m2])
  also have "\<dots> = map_sum id (set_time t) (run svc awb doc m1 m2)"
    by (cases "run svc awb doc m1 m2") (simp_all add: set_time_twice)
  finally show "map_sum id (set_time t) (run svc awb doc n1 n2)
        = map_sum id (set_time t) (run svc awb doc m1 m2)" .
  show "run svc awb doc n1 n2 = run svc awb doc m1 n2"
    unfolding run_def by (simp only: responseData_ignores_iso [of _ awb _ n1 doc n2 m1])
  show "\<exists>p. run svc awb doc n1 n2 = Inr p \<and> time_of p = n2"
    using run_returns [of svc awb doc n1 n2] run_time by blast
qed

theorem C8_envelopes_differ_counterexample:
  "run ''gmr'' ''05700359741''
      [\<lparr>attr_id = Some ''grd1'', trs = [[\<lparr>cell_name = ''td'', cell_text = ''A''\<rparr>, \<lparr>cell_name = ''td'', cell_text = ''B''\<rparr>]]\<rparr>]
      ''2026-01-05T04:30:00.000Z'' ''5/1/2026, 10:00:00 am''
   \<noteq> run ''gmr'' ''05700359741''
      [\<lparr>attr_id = Some ''grd1'', trs = [[\<lparr>cell_name = ''td'', cell_text = ''A''\<rparr>, \<lparr>cell_name = ''td'', cell_text = ''B''\<rparr>]]\<rparr>]
      ''2026-01-05T04:30:01.000Z'' ''5/1/2026, 10:00:01 am''"
proof
  let ?doc = "[\<lparr>attr_id = Some ''grd1'', trs = [[\<lparr>cell_name = ''td'', cell_text = ''A''\<rparr>, \<lparr>cell_name = ''td'', cell_text = ''B''\<rparr>]]\<rparr>]"
  assume e: "run ''gmr'' ''05700359741'' ?doc ''2026-01-05T04:30:00.000Z'' ''5/1/2026, 10:00:00 am''
     = run ''gmr'' ''05700359741'' ?doc ''2026-01-05T04:30:01.000Z'' ''5/1/2026, 10:00:01 am''"
  obtain p where p: "run ''gmr'' ''05700359741'' ?doc ''2026-01-05T04:30:00.000Z'' ''5/1/2026, 10:00:00 am'' = Inr p"
    using run_returns by blast
  from run_time [OF p] have t1: "time_of p = ''5/1/2026, 10:00:00 am''" .
  from p e have "run ''gmr'' ''05700359741'' ?doc ''2026-01-05T04:30:01.000Z'' ''5/1/2026, 10:00:01 am'' = Inr p"
    by (simp only:)
  from run_time [OF this] have "time_of p = ''5/1/2026, 10:00:01 am''" .
  with t1 show False by simp
qed

text \<open>
  C9 (amended). The server's assembly keeps, for source GMR (option 2), exactly the
  extracted tables whose id starts with \<^verbatim>\<open>Grid\<close> or \<^verbatim>\<open>grd\<close> and, for any other option, only
  the first extracted table. The kept tables are restructured one by one, in order, with
  \<open>table_number\<close> 1 to k, \<open>total_tables\<close> k and each row as the list of its cell texts.
  The assembly after normalization drops nothing and changes nothing else: every section
  the Section Normalizer emits, over all tables in order, becomes one output table with
  the section's id, title and records, its record count and the number 1 to k of its
  position; every table of source GMR becomes one output table with the records of the
  Header-Inference Normalizer and the id and number the server gave it; the other fields
  of the envelope are those of the response.
\<close>

theorem C9_assembly:
  "usefulTables ''2'' d =
     filter (\<lambda>t. (\<exists>rest. table_id t = ''Grid'' @ rest) \<or> (\<exists>rest. table_id t = ''grd'' @ rest))
            (all_tables d)
   \<and> (opt \<noteq> ''2'' \<longrightarrow> usefulTables opt d = take 1 (all_tables d))
   \<and> total_tables (responseData opt d now) = length (usefulTables opt d)
   \<and> length (tables (responseData opt d now)) = length (usefulTables opt d)
   \<and> (\<forall>k < length (usefulTables opt d).
         tables (responseData opt d now) ! k =
           \<lparr>table_number = k + 1, table_id = table_id (usefulTables opt d ! k),
            total_rows = length (rows (usefulTables opt d ! k)),
            rows = map (\<lambda>r. map text (cells r)) (rows (usefulTables opt d ! k))\<rparr>)
   \<and> map table_number (tables (responseData opt d now)) = [1 ..< length (usefulTables opt d) + 1]
   \<and> foldl dcsc_table [] (tables rawData) =
       concat (map (\<lambda>t. filter (\<lambda>s. data s \<noteq> []) (map spec_section (section_events (rows t))))
                   (tables rawData))
   \<and> length (tables (parseDCSCTables rawData)) = length (foldl dcsc_table [] (tables rawData))
   \<and> total_tables (parseDCSCTables rawData) = length (foldl dcsc_table [] (tables rawData))
   \<and> (\<forall>k < length (foldl dcsc_table [] (tables rawData)).
         tables (parseDCSCTables rawData) ! k =
           \<lparr>out_table_id = sec_table_id (foldl dcsc_table [] (tables rawData) ! k),
            out_table_number = k + 1,
            out_section_title = Some (section_title (foldl dcsc_table [] (tables rawData) ! k)),
            out_data = data (foldl dcsc_table [] (tables rawData) ! k),
            out_total_rows = length (data (foldl dcsc_table [] (tables rawData) ! k))\<rparr>)
   \<and> map out_table_number (tables (parseDCSCTables rawData))
       = [1 ..< total_tables (parseDCSCTables rawData) + 1]
   \<and> env_awb_number (parseDCSCTables rawData) = env_awb_number rawData
   \<and> service_name (parseDCSCTables rawData) = service_name rawData
   \<and> service_code (parseDCSCTables rawData) = service_code rawData
   \<and> env_extraction_time (parseDCSCTables rawData) = env_extraction_time rawData
   \<and> (\<forall>out. parseGMRTables rawData = Inr out \<longrightarrow>
         length (tables out) = length (tables rawData) \<and>
         total_tables out = total_tables rawData \<and>
         (\<forall>k < length (tables rawData).
            gmr_table (tables rawData ! k) = Inr (tables out ! k) \<and>
            out_table_id (tables out ! k) = table_id (tables rawData ! k) \<and>
            out_table_number (tables out ! k) = table_number (tables rawData ! k)) \<and>
         map out_table_number (tables out) = map table_number (tables rawData) \<and>
         env_awb_number out = env_awb_number rawData \<and>
         service_name out = service_name rawData \<and>
         service_code out = service_code rawData \<and>
         env_extraction_time out = env_extraction_time rawData)"
proof (intro conjI)
  show "usefulTables ''2'' d =
     filter (\<lambda>t. (\<exists>rest. table_id t = ''Grid'' @ rest) \<or> (\<exists>rest. table_id t = ''grd'' @ rest))
            (all_tables d)"
    by (simp add: usefulTables_def startsWith_iff)
  show "opt \<noteq> ''2'' \<longrightarrow> usefulTables opt d = take 1 (all_tables d)"
    by (cases "all_tables d") (simp_all add: usefulTables_def)
  show "total_tables (responseData opt d now) = length (usefulTables opt d)"
    by (simp add: responseData_def)
  show "length (tables (responseData opt d now)) = length (usefulTables opt d)"
    by (simp add: responseData_def number_tables_length)
  show "\<forall>k < length (usefulTables opt d).
         tables (responseData opt d now) ! k =
           \<lparr>table_number = k + 1, table_id = table_id (usefulTables opt d ! k),
            total_rows = length (rows (usefulTables opt d ! k)),
            rows = map (\<lambda>r. map text (cells r)) (rows (usefulTables opt d ! k))\<rparr>"
    by (simp add: responseData_def number_tables_nth)
  show "map table_number (tables (responseData opt d now)) = [1 ..< length (usefulTables opt d) + 1]"
    using number_tables_numbers [of "usefulTables opt d" 0] by (simp add: responseData_def)
  show "foldl dcsc_table [] (tables rawData) =
       concat (map (\<lambda>t. filter (\<lambda>s. data s \<noteq> []) (map spec_section (section_events (rows t))))
                   (tables rawData))"
    by (simp add: foldl_dcsc_table)
  show "length (tables (parseDCSCTables rawData)) = length (foldl dcsc_table [] (tables rawData))"
    by (simp add: parseDCSCTables_def Let_def number_sections_length)
  show "total_tables (parseDCSCTables rawData) = length (foldl dcsc_table [] (tables rawData))"
    by (simp add: parseDCSCTables_def Let_def)
  show "\<forall>k < length (foldl dcsc_table [] (tables rawData)).
         tables (parseDCSCTables rawData) ! k =
           \<lparr>out_table_id = sec_table_id (foldl dcsc_table [] (tables rawData) ! k),
            out_table_number = k + 1,
            out_section_title = Some (section_title (foldl dcsc_table [] (tables rawData) ! k)),
            out_data = data (foldl dcsc_table [] (tables rawData) ! k),
            out_total_rows = length (data (foldl dcsc_table [] (tables rawData) ! k))\<rparr>"
    by (simp add: parseDCSCTables_def Let_def number_sections_nth)
  show "map out_table_number (tables (parseDCSCTables rawData))
       = [1 ..< total_tables (parseDCSCTables rawData) + 1]"
    using number_sections_numbers [of "foldl dcsc_table [] (tables rawData)" 0]
    by (simp add: parseDCSCTables_def Let_def)
  show "env_awb_number (parseDCSCTables rawData) = env_awb_number rawData"
    by (simp add: parseDCSCTables_def Let_def)
  show "service_name (parseDCSCTables rawData) = service_name rawData"
    by (simp add: parseDCSCTables_def Let_def)
  show "service_code (parseDCSCTables rawData) = service_code rawData"
    by (simp add: parseDCSCTables_def Let_def)
  show "env_extraction_time (parseDCSCTables rawData) = env_extraction_time rawData"
    by (simp add: parseDCSCTables_def Let_def)
  show "\<forall>out. parseGMRTables rawData = Inr out \<longrightarrow>
         length (tables out) = length (tables rawData) \<and>
         total_tables out = total_tables rawData \<and>
         (\<forall>k < length (tables rawData).
            gmr_table (tables rawData ! k) = Inr (tables out ! k) \<and>
            out_table_id (tables out ! k) = table_id (tables rawData ! k) \<and>
            out_table_number (tables out ! k) = table_number (tables rawData ! k)) \<and>
         map out_table_number (tables out) = map table_number (tables rawData) \<and>
         env_awb_number out = env_awb_number rawData \<and>
         service_name out = service_name rawData \<and>
         service_code out = service_code rawData \<and>
         env_extraction_time out = env_extraction_time rawData"
  proof (intro allI impI)
    fix out assume a: "parseGMRTables rawData = Inr out"
    have each: "\<forall>k < length (tables rawData).
            gmr_table (tables rawData ! k) = Inr (tables out ! k) \<and>
            out_table_id (tables out ! k) = table_id (tables rawData ! k) \<and>
            out_table_number (tables out ! k) = table_number (tables rawData ! k)"
      using parseGMRTables_each [OF a] gmr_table_number by blast
    with parseGMRTables_keeps [OF a] parseGMRTables_frame [OF a]
    show "length (tables out) = length (tables rawData) \<and>
         total_tables out = total_tables rawData \<and>
         (\<forall>k < length (tables rawData).
            gmr_table (tables rawData ! k) = Inr (tables out ! k) \<and>
            out_table_id (tables out ! k) = table_id (tables rawData ! k) \<and>
            out_table_number (tables out ! k) = table_number (tables rawData ! k)) \<and>
         map out_table_number (tables out) = map table_number (tables rawData) \<and>
         env_awb_number out = env_awb_number rawData \<and>
         service_name out = service_name rawData \<and>
         service_code out = service_code rawData \<and>
         env_extraction_time out = env_extraction_time rawData"
      by (simp only: simp_thms)
  qed
qed

theorem C9_assembly_witness:
  "usefulTables ''1''
      \<lparr>awb_number = ''057'', service = Some ''DCSC - Delhi Cargo Service Centre'',
       extraction_time = ''t0'',
       all_tables = [\<lparr>table_number = 0, table_id = ''table_0'', total_rows = 1,
                      rows = [\<lparr>row_number = 0, cells = [\<lparr>text = ''x'', isHeader = False\<rparr>]\<rparr>]\<rparr>,
                     \<lparr>table_number = 1, table_id = ''table_1'', total_rows = 1,
                      rows = [\<lparr>row_number = 0, cells = [\<lparr>text = ''y'', isHeader = False\<rparr>]\<rparr>]\<rparr>]\<rparr>
     = [\<lparr>table_number = 0, table_id = ''table_0'', total_rows = 1,
         rows = [\<lparr>row_number = 0, cells = [\<lparr>text = ''x'', isHeader = False\<rparr>]\<rparr>]\<rparr>]
   \<and> tables (responseData ''1''
      \<lparr>awb_number = ''057'', service = Some ''DCSC - Delhi Cargo Service Centre'',
       extraction_time = ''t0'',
       all_tables = [\<lparr>table_number = 0, table_id = ''table_0'', total_rows = 1,
                      rows = [\<lparr>row_number = 0, cells = [\<lparr>text = ''x'', isHeader = False\<rparr>]\<rparr>]\<rparr>,
                     \<lparr>table_number = 1, table_id = ''table_1'', total_rows = 1,
                      rows = [\<lparr>row_number = 0, cells = [\<lparr>text = ''y'', isHeader = False\<rparr>]\<rparr>]\<rparr>]\<rparr>
      ''now'') ! 0
     = \<lparr>table_number = 1, table_id = ''table_0'', total_rows = 1, rows = [[''x'']]\<rparr>
   \<and> tables (parseDCSCTables
        \<lparr>env_awb_number = ''057'', service_name = Some ''DCSC - Delhi Cargo Service Centre'',
         service_code = ''1'', env_extraction_time = ''now'', total_tables = 1,
         tables = [\<lparr>table_number = 1, table_id = ''t'', total_rows = 3,
                    rows = [[''A DETAILS''], [''Date'', ''Status''],
                            [''05-Jan-24'', ''Arrived'']]\<rparr>]\<rparr>) ! 0
     = \<lparr>out_table_id = ''a_details'', out_table_number = 1,
        out_section_title = Some ''A DETAILS'',
        out_data = [[''Date'' \<mapsto> ''05-Jan-24'', ''Status'' \<mapsto> ''Arrived'']],
        out_total_rows = 1\<rparr>
   \<and> parseGMRTables
        \<lparr>env_awb_number = ''057'', service_name = Some ''GMR ARGO - Cargo Tracking'',
         service_code = ''2'', env_extraction_time = ''now'', total_tables = 1,
         tables = [\<lparr>table_number = 1, table_id = ''grd1'', total_rows = 2,
                    rows = [[''A'', ''B''], [''1'', ''2'']]\<rparr>]\<rparr>
     = Inr \<lparr>env_awb_number = ''057'', service_name = Some ''GMR ARGO - Cargo Tracking'',
            service_code = ''2'', env_extraction_time = ''now'', total_tables = 1,
            tables = [\<lparr>out_table_id = ''grd1'', out_table_number = 1, out_section_title = None,
                       out_data = [[''A'' \<mapsto> ''1'', ''B'' \<mapsto> ''2'']],
                       out_total_rows = 1\<rparr>]\<rparr>
   \<and> gmr_table \<lparr>table_number = 1, table_id = ''grd1'', total_rows = 2,
                 rows = [[''A'', ''B''], [''1'', ''2'']]\<rparr>
     = Inr \<lparr>out_table_id = ''grd1'', out_table_number = 1, out_section_title = None,
            out_data = [[''A'' \<mapsto> ''1'', ''B'' \<mapsto> ''2'']], out_total_rows = 1\<rparr>"
proof -
  let ?t0 = "\<lparr>table_number = 0, table_id = ''table_0'', total_rows = 1,
               rows = [\<lparr>row_number = 0, cells = [\<lparr>text = ''x'', isHeader = False\<rparr>]\<rparr>]\<rparr> :: grid_table"
  let ?t1 = "\<lparr>table_number = 1, table_id = ''table_1'', total_rows = 1,
               rows = [\<lparr>row_number = 0, cells = [\<lparr>text = ''y'', isHeader = False\<rparr>]\<rparr>]\<rparr> :: grid_table"
  let ?d = "\<lparr>awb_number = ''057'', service = Some ''DCSC - Delhi Cargo Service Centre'',
             extraction_time = ''t0'', all_tables = [?t0, ?t1]\<rparr>"
  let ?ta = "\<lparr>table_number = 1, table_id = ''t'', total_rows = 3,
               rows = [[''A DETAILS''], [''Date'', ''Status''], [''05-Jan-24'', ''Arrived'']]\<rparr>
             :: response_table"
  let ?ob = "[''Date'' \<mapsto> ''05-Jan-24'', ''Status'' \<mapsto> ''Arrived'']"
  let ?s = "\<lparr>section_title = ''A DETAILS'', sec_table_id = ''a_details'', data = [?ob]\<rparr>"
  let ?raw1 = "\<lparr>env_awb_number = ''057'', service_name = Some ''DCSC - Delhi Cargo Service Centre'',
         service_code = ''1'', env_extraction_time = ''now'', total_tables = 1, tables = [?ta]\<rparr>"
  let ?tg = "\<lparr>table_number = 1, table_id = ''grd1'', total_rows = 2,
               rows = [[''A'', ''B''], [''1'', ''2'']]\<rparr> :: response_table"
  let ?og = "\<lparr>out_table_id = ''grd1'', out_table_number = 1, out_section_title = None,
               out_data = [[''A'' \<mapsto> ''1'', ''B'' \<mapsto> ''2'']], out_total_rows = 1\<rparr>"
  let ?raw2 = "\<lparr>env_awb_number = ''057'', service_name = Some ''GMR ARGO - Cargo Tracking'',
         service_code = ''2'', env_extraction_time = ''now'', total_tables = 1, tables = [?tg]\<rparr>"
  let ?out2 = "\<lparr>env_awb_number = ''057'', service_name = Some ''GMR ARGO - Cargo Tracking'',
         service_code = ''2'', env_extraction_time = ''now'', total_tables = 1, tables = [?og]\<rparr>"
  note c = C9_assembly [of ?d "''1''" "''now''" ?raw1]
  note c2 = c [THEN conjunct2, THEN conjunct1]
  note c5 = c [THEN conjunct2, THEN conjunct2, THEN conjunct2, THEN conjunct2, THEN conjunct1]
  note c10 = c [THEN conjunct2, THEN conjunct2, THEN conjunct2, THEN conjunct2, THEN conjunct2,
      THEN conjunct2, THEN conjunct2, THEN conjunct2, THEN conjunct2, THEN conjunct1]
  note g = C9_assembly [of ?d "''1''" "''now''" ?raw2]
  note g16 = g [THEN conjunct2, THEN conjunct2, THEN conjunct2, THEN conjunct2, THEN conjunct2,
      THEN conjunct2, THEN conjunct2, THEN conjunct2, THEN conjunct2, THEN conjunct2,
      THEN conjunct2, THEN conjunct2, THEN conjunct2, THEN conjunct2, THEN conjunct2]
  have "''1'' \<noteq> ''2''" by simp
  from c2 [THEN mp, OF this] have u: "usefulTables ''1'' ?d = [?t0]" by simp
  have "0 < length (usefulTables ''1'' ?d)" unfolding u by simp
  from c5 [rule_format, OF this]
  have a: "tables (responseData ''1'' ?d ''now'') ! 0
     = \<lparr>table_number = 1, table_id = ''table_0'', total_rows = 1, rows = [[''x'']]\<rparr>"
    unfolding u by simp
  have "foldl dcsc_table [] (tables ?raw1) = dcsc_table [] ?ta" by simp
  then have f: "foldl dcsc_table [] (tables ?raw1) = [?s]"
    by (simp only: scenario2_sections)
  have "0 < length (foldl dcsc_table [] (tables ?raw1))" unfolding f by simp
  from c10 [rule_format, OF this]
  have b: "tables (parseDCSCTables ?raw1) ! 0
     = \<lparr>out_table_id = ''a_details'', out_table_number = 1, out_section_title = Some ''A DETAILS'',
        out_data = [?ob], out_total_rows = 1\<rparr>"
    unfolding f by simp
  have ch: "clean_header ''A'' = ''A''" "clean_header ''B'' = ''B''"
    by (simp_all add: clean_header_def trim_def is_space_def)
  have hr: "headerRowIndex [[''A'', ''B''], [''1'', ''2'']] = 0"
    by (simp add: headerRowIndex_def header_scan.simps is_header_row_def)
  have gt: "gmr_table ?tg = Inr ?og"
    by (simp add: gmr_table_def hr ch obj_set_def)
  have pg: "parseGMRTables ?raw2 = Inr ?out2"
    using gt by (simp add: parseGMRTables_def)
  from g16 [rule_format, OF pg]
  have "\<forall>k < length (tables ?raw2).
            gmr_table (tables ?raw2 ! k) = Inr (tables ?out2 ! k) \<and>
            out_table_id (tables ?out2 ! k) = table_id (tables ?raw2 ! k) \<and>
            out_table_number (tables ?out2 ! k) = table_number (tables ?raw2 ! k)"
    by (elim conjE)
  from this [rule_format, of 0] have e: "gmr_table ?tg = Inr ?og" by simp
  from u a b pg e show ?thesis by (simp only: simp_thms)
qed

theorem C9_tables_dropped_counterexample:
  "map table_id (all_tables (parseHTML ''057'' ''2'' ''t0''
       [\<lparr>attr_id = Some ''info'', trs = [[\<lparr>cell_name = ''td'', cell_text = ''x''\<rparr>]]\<rparr>,
        \<lparr>attr_id = Some ''grd1'', trs = [[\<lparr>cell_name = ''td'', cell_text = ''y''\<rparr>]]\<rparr>]))
     = [''info'', ''grd1'']
   \<and> map table_id (tables (responseData ''2'' (parseHTML ''057'' ''2'' ''t0''
       [\<lparr>attr_id = Some ''info'', trs = [[\<lparr>cell_name = ''td'', cell_text = ''x''\<rparr>]]\<rparr>,
        \<lparr>attr_id = Some ''grd1'', trs = [[\<lparr>cell_name = ''td'', cell_text = ''y''\<rparr>]]\<rparr>]) ''now''))
     = [''grd1'']
   \<and> map table_id (tables (responseData ''1'' (parseHTML ''057'' ''1'' ''t0''
       [\<lparr>attr_id = Some ''info'', trs = [[\<lparr>cell_name = ''td'', cell_text = ''x''\<rparr>]]\<rparr>,
        \<lparr>attr_id = Some ''grd1'', trs = [[\<lparr>cell_name = ''td'', cell_text = ''y''\<rparr>]]\<rparr>]) ''now''))
     = [''info'']"
  by (simp add: parseHTML_def responseData_def usefulTables_def startsWith_def trim_def is_space_def)

text \<open>
  C10. The normalizer of source GMR throws a TypeError on a table without rows and
  returns on every table with a row; one table without rows makes the whole normalization
  throw. Every table the server sends, built from an extraction, has a row, so that on
  the server's response the normalizer returns.
\<close>

theorem C10_gmr_needs_a_row:
  "(rows t = [] \<longrightarrow> gmr_table t = Inl TypeError)
   \<and> (rows t \<noteq> [] \<longrightarrow> (\<exists>out. gmr_table t = Inr out))
   \<and> ((\<exists>t' \<in> set (tables rawData). rows t' = []) \<longrightarrow> parseGMRTables rawData = Inl TypeError)
   \<and> ((\<forall>t' \<in> set (tables rawData). rows t' \<noteq> []) \<longrightarrow> (\<exists>out. parseGMRTables rawData = Inr out))
   \<and> (\<forall>t' \<in> set (tables (responseData opt (parseHTML awb opt' now doc) now')). rows t' \<noteq> [])
   \<and> (\<exists>out. parseGMRTables (responseData opt (parseHTML awb opt' now doc) now') = Inr out)"
proof (intro conjI)
  show "rows t = [] \<longrightarrow> gmr_table t = Inl TypeError"
    by (simp add: gmr_table_empty)
  show "rows t \<noteq> [] \<longrightarrow> (\<exists>out. gmr_table t = Inr out)"
    by (simp add: gmr_table_ok)
  show "(\<exists>t' \<in> set (tables rawData). rows t' = []) \<longrightarrow> parseGMRTables rawData = Inl TypeError"
  proof
    assume "\<exists>t' \<in> set (tables rawData). rows t' = []"
    then obtain t' where "t' \<in> set (tables rawData)" "gmr_table t' = Inl TypeError"
      using gmr_table_empty by blast
    then have "map_throwing gmr_table (tables rawData) = Inl TypeError"
      by (rule map_throwing_fails)
    then show "parseGMRTables rawData = Inl TypeError"
      by (simp add: parseGMRTables_def)
  qed
  have ok: "\<exists>out. parseGMRTables raw = Inr out" if "\<forall>t' \<in> set (tables raw). rows t' \<noteq> []" for raw
  proof -
    from that have "\<forall>t' \<in> set (tables raw). \<exists>y. gmr_table t' = Inr y"
      by (simp add: gmr_table_ok)
    then obtain ys where "map_throwing gmr_table (tables raw) = Inr ys"
      using map_throwing_ok by blast
    then show ?thesis by (simp add: parseGMRTables_def)
  qed
  show "(\<forall>t' \<in> set (tables rawData). rows t' \<noteq> []) \<longrightarrow> (\<exists>out. parseGMRTables rawData = Inr out)"
    using ok by blast
  show ne: "\<forall>t' \<in> set (tables (responseData opt (parseHTML awb opt' now doc) now')). rows t' \<noteq> []"
    using response_rows_nonempty by blast
  show "\<exists>out. parseGMRTables (responseData opt (parseHTML awb opt' now doc) now') = Inr out"
    using ok [OF ne] .
qed

theorem C10_gmr_needs_a_row_witness:
  "gmr_table \<lparr>table_number = 1, table_id = ''grd1'', total_rows = 0, rows = []\<rparr> = Inl TypeError
   \<and> parseGMRTables \<lparr>env_awb_number = ''057'', service_name = None, service_code = ''2'',
        env_extraction_time = ''now'', total_tables = 1,
        tables = [\<lparr>table_number = 1, table_id = ''grd1'', total_rows = 0, rows = []\<rparr>]\<rparr> = Inl TypeError
   \<and> tables (responseData ''2'' (parseHTML ''057'' ''2'' ''t0''
         [\<lparr>attr_id = Some ''grd1'', trs = [[\<lparr>cell_name = ''td'', cell_text = '' ''\<rparr>]]\<rparr>,
          \<lparr>attr_id = Some ''grd2'', trs = [[\<lparr>cell_name = ''td'', cell_text = ''x''\<rparr>]]\<rparr>]) ''t1'')
       = [\<lparr>table_number = 1, table_id = ''grd2'', total_rows = 1, rows = [[''x'']]\<rparr>]
   \<and> (\<exists>out. gmr_table \<lparr>table_number = 1, table_id = ''grd2'', total_rows = 1, rows = [[''x'']]\<rparr>
          = Inr out)"
proof -
  let ?t = "\<lparr>table_number = 1, table_id = ''grd1'', total_rows = 0, rows = []\<rparr> :: response_table"
  let ?raw = "\<lparr>env_awb_number = ''057'', service_name = None, service_code = ''2'',
        env_extraction_time = ''now'', total_tables = 1, tables = [?t]\<rparr>"
  let ?u = "\<lparr>table_number = 1, table_id = ''grd2'', total_rows = 1, rows = [[''x'']]\<rparr> :: response_table"
  have a: "gmr_table ?t = Inl TypeError"
    using C10_gmr_needs_a_row [of ?t] by simp
  have b: "parseGMRTables ?raw = Inl TypeError"
    using C10_gmr_needs_a_row [of ?t ?raw] by simp
  have c: "tables (responseData ''2'' (parseHTML ''057'' ''2'' ''t0''
         [\<lparr>attr_id = Some ''grd1'', trs = [[\<lparr>cell_name = ''td'', cell_text = '' ''\<rparr>]]\<rparr>,
          \<lparr>attr_id = Some ''grd2'', trs = [[\<lparr>cell_name = ''td'', cell_text = ''x''\<rparr>]]\<rparr>]) ''t1'') = [?u]"
    by (simp add: responseData_def parseHTML_def usefulTables_def startsWith_def trim_def is_space_def)
  have d: "\<exists>out. gmr_table ?u = Inr out"
    using C10_gmr_needs_a_row [of ?u] by simp
  from a b c d show ?thesis by (simp only: simp_thms)
qed

end
